theory Spec2Isabelle
  imports Complex_Main
begin

section \<open>Values of the Go program\<close>

text \<open>
  A \<open>float64\<close> is a finite number, an infinity or NaN. For the values that come from the
  request the finite ones are over-approximated by the reals, and comparisons with zero are the
  IEEE ones (every comparison with NaN is false). The one computation on \<open>float64\<close> whose
  rounding matters, the number of pages, is modelled bit for bit on integers in section
  \<open>The search handler\<close>.
\<close>

datatype float64 = Finite real | PosInf | NegInf | NaN

text \<open>\<open>x > 0\<close> on \<open>float64\<close>.\<close>

fun fgt0 :: "float64 \<Rightarrow> bool" where
  "fgt0 (Finite r) = (0 < r)"
| "fgt0 PosInf = True"
| "fgt0 NegInf = False"
| "fgt0 NaN = False"

text \<open>\<open>x <= 0\<close> on \<open>float64\<close>.\<close>

fun fle0 :: "float64 \<Rightarrow> bool" where
  "fle0 (Finite r) = (r \<le> 0)"
| "fle0 PosInf = False"
| "fle0 NegInf = True"
| "fle0 NaN = False"

text \<open>
  \<open>d / 100.0\<close> on \<open>float64\<close>. The quotient of a finite value is taken in the reals, where
  \<open>float64\<close> rounds it to the nearest value it has; the quotient is only handed on as an
  argument of the queries.
\<close>

fun fdiv100 :: "float64 \<Rightarrow> float64" where
  "fdiv100 (Finite r) = Finite (r / 100)"
| "fdiv100 PosInf = PosInf"
| "fdiv100 NegInf = NegInf"
| "fdiv100 NaN = NaN"

text \<open>Go's \<open>int\<close> is 64 bits wide; arithmetic that can leave the range wraps.\<close>

definition wrap64 :: "int \<Rightarrow> int" where
  "wrap64 x = (x + 2 ^ 63) mod 2 ^ 64 - 2 ^ 63"

text \<open>An element of the \<open>[]interface{}\<close> argument vector.\<close>

datatype arg = ArgFloat float64 | ArgString string | ArgInt int

section \<open>Search parameters\<close>

definition DefaultLimit :: int where
  "DefaultLimit = 12"

record SearchParams =
  Page :: int
  Limit :: int
  Offset :: int
  Name :: string
  MinCost :: int
  MaxCost :: int
  Rating :: float64
  Discount :: float64
  Free :: bool
  City :: string
  Area :: string
  CuisineIds :: string
  MealTypeIds :: string
  Cuisine :: string
  MealType :: string
  Cuisines :: string
  MealTypes :: string
  Lat :: float64
  Lon :: float64
  Radius :: float64
  HasLocation :: bool
  Sort :: string

text \<open>
  \<open>url.Values\<close> is a \<open>map[string][]string\<close>; \<open>Get\<close> returns the first value of a key, or the
  empty string.
\<close>

type_synonym Values = "string \<rightharpoonup> string list"

definition Get :: "Values \<Rightarrow> string \<Rightarrow> string" where
  "Get query key = (case query key of None \<Rightarrow> [] | Some [] \<Rightarrow> [] | Some (v # _) \<Rightarrow> v)"

text \<open>
  The two functions of package \<open>strconv\<close> the parser calls are parameters of the model. Each
  returns the value and whether the error is non-nil; the source discards the error and keeps
  the value (\<open>p.Page, _ = strconv.Atoi(...)\<close>).
\<close>

record strconv =
  Atoi :: "string \<Rightarrow> int \<times> bool"
  ParseFloat :: "string \<Rightarrow> float64 \<times> bool"

definition zeroParams :: SearchParams where
  "zeroParams = \<lparr>Page = 0, Limit = DefaultLimit, Offset = 0, Name = [], MinCost = 0, MaxCost = 0,
     Rating = Finite 0, Discount = Finite 0, Free = False, City = [], Area = [],
     CuisineIds = [], MealTypeIds = [], Cuisine = [], MealType = [], Cuisines = [],
     MealTypes = [], Lat = Finite 0, Lon = Finite 0, Radius = Finite 0, HasLocation = False,
     Sort = []\<rparr>"

definition parsePage :: "strconv \<Rightarrow> Values \<Rightarrow> int" where
  "parsePage sc query =
     (let page = fst (Atoi sc (Get query ''page'')) in if page \<le> 0 then 1 else page)"

definition parseName :: "Values \<Rightarrow> string" where
  "parseName query =
     (let name = Get query ''name'' in if name = [] then Get query ''q'' else name)"

definition parseCost :: "strconv \<Rightarrow> Values \<Rightarrow> string \<Rightarrow> string \<Rightarrow> int" where
  "parseCost sc query key alias =
     (let c = fst (Atoi sc (Get query key)) in
      if c = 0 then fst (Atoi sc (Get query alias)) else c)"

definition parseDiscount :: "strconv \<Rightarrow> Values \<Rightarrow> float64" where
  "parseDiscount sc query =
     (let d = fst (ParseFloat sc (Get query ''discount'')) in
      if fgt0 d then fdiv100 d else Finite 0)"

definition parseRadius :: "strconv \<Rightarrow> Values \<Rightarrow> float64" where
  "parseRadius sc query =
     (let r = fst (ParseFloat sc (Get query ''radius'')) in
      if fle0 r then Finite 50000 else r)"

definition ParseSearchParams :: "strconv \<Rightarrow> Values \<Rightarrow> SearchParams" where
  "ParseSearchParams sc query =
     (let p = zeroParams;
          p = p\<lparr>Page := parsePage sc query\<rparr>;
          p = p\<lparr>Offset := wrap64 ((Page p - 1) * Limit p)\<rparr>;
          p = p\<lparr>Name := parseName query\<rparr>;
          p = p\<lparr>MinCost := parseCost sc query ''minCost'' ''min_cost''\<rparr>;
          p = p\<lparr>MaxCost := parseCost sc query ''maxCost'' ''max_cost''\<rparr>;
          p = p\<lparr>Rating := fst (ParseFloat sc (Get query ''rating''))\<rparr>;
          p = p\<lparr>Discount := parseDiscount sc query\<rparr>;
          p = p\<lparr>Free := (Get query ''free'' = ''true'')\<rparr>;
          p = p\<lparr>City := Get query ''city'', Area := Get query ''area'',
                CuisineIds := Get query ''cuisineIds'', MealTypeIds := Get query ''mealtypeIds'',
                Cuisine := Get query ''cuisine'', MealType := Get query ''meal_type'',
                Cuisines := Get query ''cuisines'', MealTypes := Get query ''mealtypes''\<rparr>;
          latStr = Get query ''lat'';
          lonStr = Get query ''lon'';
          p = (if latStr \<noteq> [] \<and> lonStr \<noteq> []
               then p\<lparr>Lat := fst (ParseFloat sc latStr), Lon := fst (ParseFloat sc lonStr),
                      Radius := parseRadius sc query, HasLocation := True\<rparr>
               else p)
      in p\<lparr>Sort := Get query ''sort''\<rparr>)"

section \<open>SQL templates\<close>

text \<open>
  A template is kept in the shape \<open>fmt.Sprintf\<close> gives it: literal text and the positional
  placeholders \<open>$%d\<close>. \<open>render\<close> is the string the Go code builds. The type of what stands
  in a placeholder is a parameter: an index in the templates of the code, a value once the
  arguments are bound.
\<close>

datatype 'a tok = Lit string | Ph 'a

type_synonym sql = "int tok list"

definition digit_char :: "nat \<Rightarrow> char" where
  "digit_char d = ''0123456789'' ! d"

fun digits_of :: "nat \<Rightarrow> string" where
  "digits_of n = (if n < 10 then [digit_char n] else digits_of (n div 10) @ [digit_char (n mod 10)])"

declare digits_of.simps [simp del]

text \<open>The verb \<open>%d\<close> of \<open>fmt.Sprintf\<close>.\<close>

definition itoa :: "int \<Rightarrow> string" where
  "itoa i = (if i < 0 then CHR ''-'' # digits_of (nat (- i)) else digits_of (nat i))"

fun render_tok :: "int tok \<Rightarrow> string" where
  "render_tok (Lit s) = s"
| "render_tok (Ph i) = CHR ''$'' # itoa i"

definition render :: "sql \<Rightarrow> string" where
  "render t = concat (map render_tok t)"

text \<open>The placeholder indices of a template, in order of occurrence.\<close>

fun phs :: "'a tok list \<Rightarrow> 'a list" where
  "phs [] = []"
| "phs (Lit s # t) = phs t"
| "phs (Ph i # t) = i # phs t"

text \<open>\<open>strings.Join\<close>.\<close>

fun Join :: "'a list list \<Rightarrow> 'a list \<Rightarrow> 'a list" where
  "Join [] sep = []"
| "Join [x] sep = x"
| "Join (x # y # ys) sep = x @ sep @ Join (y # ys) sep"

text \<open>\<open>strings.Split\<close> with a separator of one byte.\<close>

fun Split :: "string \<Rightarrow> char \<Rightarrow> string list" where
  "Split [] sep = [[]]"
| "Split (c # cs) sep =
     (if c = sep then [] # Split cs sep
      else (case Split cs sep of [] \<Rightarrow> [[c]] | x # xs \<Rightarrow> (c # x) # xs))"

text \<open>
  \<open>strings.TrimSpace\<close> removes the leading and the trailing white space of Unicode
  (\<open>unicode.IsSpace\<close>). A Go string is a sequence of bytes, read as UTF-8: the white space is
  the six characters of ASCII, U+0085 and U+00A0 (two bytes each), and U+1680, U+2000 to
  U+200A, U+2028, U+2029, U+202F, U+205F and U+3000 (three bytes each). A byte that begins no
  such encoding stops the trimming from its side.
\<close>

definition space_runes :: "string list" where
  "space_runes =
     [[CHR 0x09], [CHR 0x0A], [CHR 0x0B], [CHR 0x0C], [CHR 0x0D], [CHR 0x20],
      [CHR 0xC2, CHR 0x85], [CHR 0xC2, CHR 0xA0],
      [CHR 0xE1, CHR 0x9A, CHR 0x80],
      [CHR 0xE2, CHR 0x80, CHR 0x80], [CHR 0xE2, CHR 0x80, CHR 0x81],
      [CHR 0xE2, CHR 0x80, CHR 0x82], [CHR 0xE2, CHR 0x80, CHR 0x83],
      [CHR 0xE2, CHR 0x80, CHR 0x84], [CHR 0xE2, CHR 0x80, CHR 0x85],
      [CHR 0xE2, CHR 0x80, CHR 0x86], [CHR 0xE2, CHR 0x80, CHR 0x87],
      [CHR 0xE2, CHR 0x80, CHR 0x88], [CHR 0xE2, CHR 0x80, CHR 0x89],
      [CHR 0xE2, CHR 0x80, CHR 0x8A],
      [CHR 0xE2, CHR 0x80, CHR 0xA8], [CHR 0xE2, CHR 0x80, CHR 0xA9],
      [CHR 0xE2, CHR 0x80, CHR 0xAF], [CHR 0xE2, CHR 0x81, CHR 0x9F],
      [CHR 0xE3, CHR 0x80, CHR 0x80]]"

text \<open>\<open>s\<close> begins with the non-empty \<open>e\<close>.\<close>

definition starts_with :: "string \<Rightarrow> string \<Rightarrow> bool" where
  "starts_with s e = (e \<noteq> [] \<and> take (length e) s = e)"

text \<open>Remove the encodings \<open>es\<close> from the front of \<open>s\<close>, as long as one is there.\<close>

function trim_front :: "string list \<Rightarrow> string \<Rightarrow> string" where
  "trim_front es s =
     (case filter (starts_with s) es of
        [] \<Rightarrow> s
      | e # _ \<Rightarrow> trim_front es (drop (length e) s))"
  by pat_completeness auto
termination
proof (relation "measure (\<lambda>(es, s). length s)")
  show "wf (measure (\<lambda>(es, s). length s))" by simp
next
  fix es :: "string list" and s e :: string and r
  assume "filter (starts_with s) es = e # r"
  then have "e \<in> set (filter (starts_with s) es)" by simp
  then have st: "starts_with s e" by simp
  then have "e \<noteq> []" "take (length e) s = e" by (simp_all add: starts_with_def)
  then have "s \<noteq> []" by auto
  then show "((es, drop (length e) s), (es, s)) \<in> measure (\<lambda>(es, s). length s)"
    using \<open>e \<noteq> []\<close> by simp
qed

declare trim_front.simps [simp del]

text \<open>The leading white space goes first, then the trailing white space of what is left.\<close>

definition TrimSpace :: "string \<Rightarrow> string" where
  "TrimSpace s = rev (trim_front (map rev space_runes) (rev (trim_front space_runes s)))"

definition nl :: char where
  "nl = CHR 0x0A"

definition tab :: char where
  "tab = CHR 0x09"

section \<open>The predicate builder\<close>

text \<open>The local accumulators of \<open>BuildSearchQueries\<close>.\<close>

record bstate =
  args :: "arg list"
  conditions :: "sql list"
  idx :: int

subsection \<open>The format strings\<close>

definition distance_fmt :: "'a \<Rightarrow> 'a \<Rightarrow> 'a tok list" where
  "distance_fmt a b =
     [Lit ''ST_Distance(r.geo, ST_SetSRID(ST_MakePoint('', Ph a, Lit '', '', Ph b,
      Lit ''), 4326))'']"

definition cutoff_fmt :: "'a \<Rightarrow> 'a \<Rightarrow> 'a tok list" where
  "cutoff_fmt a b =
     [Lit ''ST_DWithin(r.geo, ST_SetSRID(ST_MakePoint('', Ph a, Lit '', '', Ph b,
      Lit ''), 4326), 100000)'']"

definition radius_fmt :: "'a \<Rightarrow> 'a \<Rightarrow> 'a \<Rightarrow> 'a tok list" where
  "radius_fmt a b c =
     [Lit ''ST_DWithin(r.geo, ST_SetSRID(ST_MakePoint('', Ph a, Lit '', '', Ph b,
      Lit ''), 4326), '', Ph c, Lit '')'']"

definition city_fmt :: "'a \<Rightarrow> 'a tok list" where
  "city_fmt i = [Lit ''r.city ILIKE '', Ph i]"

definition name_fmt :: "'a \<Rightarrow> 'a \<Rightarrow> 'a tok list" where
  "name_fmt i j =
     [Lit ''(r.restaurant_name ILIKE '', Ph i, Lit '' OR r.area ILIKE '', Ph j, Lit '')'']"

definition area_fmt :: "'a \<Rightarrow> 'a tok list" where
  "area_fmt i = [Lit ''r.area ILIKE '', Ph i]"

definition cuisine_fmt :: "'a \<Rightarrow> 'a tok list" where
  "cuisine_fmt i =
     [Lit ''r.id IN (SELECT rc.restaurant_id FROM restaurant_cuisines rc JOIN cuisines c ON rc.cuisine_id = c.id WHERE c.cuisine_name ILIKE '',
      Ph i, Lit '')'']"

definition cuisines_fmt :: "'a tok list \<Rightarrow> 'a tok list" where
  "cuisines_fmt l =
     [Lit ''r.id IN (SELECT rc.restaurant_id FROM restaurant_cuisines rc JOIN cuisines c ON rc.cuisine_id = c.id WHERE c.cuisine_name IN ('']
     @ l @ [Lit ''))'']"

definition cuisine_ids_fmt :: "'a tok list \<Rightarrow> 'a tok list" where
  "cuisine_ids_fmt l =
     [Lit ''r.id IN (SELECT restaurant_id FROM restaurant_cuisines WHERE cuisine_id IN ('']
     @ l @ [Lit ''))'']"

definition meal_type_fmt :: "'a \<Rightarrow> 'a tok list" where
  "meal_type_fmt i =
     [Lit ''r.id IN (SELECT rmt.restaurant_id FROM restaurant_meal_types rmt JOIN meal_types m ON rmt.meal_type_id = m.id WHERE m.meal_type ILIKE '',
      Ph i, Lit '')'']"

definition meal_types_fmt :: "'a tok list \<Rightarrow> 'a tok list" where
  "meal_types_fmt l =
     [Lit ''r.id IN (SELECT rmt.restaurant_id FROM restaurant_meal_types rmt JOIN meal_types m ON rmt.meal_type_id = m.id WHERE m.meal_type IN ('']
     @ l @ [Lit ''))'']"

definition meal_type_ids_fmt :: "'a tok list \<Rightarrow> 'a tok list" where
  "meal_type_ids_fmt l =
     [Lit ''r.id IN (SELECT restaurant_id FROM restaurant_meal_types WHERE meal_type_id IN ('']
     @ l @ [Lit ''))'']"

definition min_cost_fmt :: "'a \<Rightarrow> 'a tok list" where
  "min_cost_fmt i = [Lit ''r.cost_for_two >= '', Ph i]"

definition max_cost_fmt :: "'a \<Rightarrow> 'a tok list" where
  "max_cost_fmt i = [Lit ''r.cost_for_two <= '', Ph i]"

definition rating_fmt :: "'a \<Rightarrow> 'a tok list" where
  "rating_fmt i = [Lit ''r.rating >= '', Ph i]"

definition discount_fmt :: "'a \<Rightarrow> 'a tok list" where
  "discount_fmt i = [Lit ''r.effective_discount >= '', Ph i]"

definition free_cond :: "'a tok list" where
  "free_cond = [Lit ''r.free = true'']"

definition duplicate_cond :: "'a tok list" where
  "duplicate_cond = [Lit ''r.is_duplicate = false'']"

subsection \<open>The steps, in the order of the source\<close>

text \<open>\<open>conditions = append(conditions, c)\<close>.\<close>

definition add_cond :: "sql \<Rightarrow> bstate \<Rightarrow> bstate" where
  "add_cond c st = st\<lparr>conditions := conditions st @ [c]\<rparr>"

text \<open>\<open>args = append(args, v); idx++\<close>.\<close>

definition push_arg :: "arg \<Rightarrow> bstate \<Rightarrow> bstate" where
  "push_arg v st = st\<lparr>args := args st @ [v], idx := idx st + 1\<rparr>"

text \<open>
  The distance expression and the 100 km cutoff (lines 113 to 122). The two coordinates are
  appended together and the counter moves by two.
\<close>

definition add_location :: "SearchParams \<Rightarrow> bstate \<Rightarrow> sql \<times> bstate" where
  "add_location p st =
     (if HasLocation p then
        (let distanceExpr = distance_fmt (idx st) (idx st + 1);
             st = st\<lparr>args := args st @ [ArgFloat (Lon p), ArgFloat (Lat p)], idx := idx st + 2\<rparr>;
             st = (if Sort p = [] \<or> Sort p = ''discount''
                   then add_cond (cutoff_fmt (idx st - 2) (idx st - 1)) st else st)
         in (distanceExpr, st))
      else ([Lit ''0.0''], st))"

text \<open>The city filter, or else the radius filter (lines 124 to 133).\<close>

definition add_city_or_radius :: "SearchParams \<Rightarrow> bstate \<Rightarrow> bstate" where
  "add_city_or_radius p st =
     (if City p \<noteq> [] then
        push_arg (ArgString (City p)) (add_cond (city_fmt (idx st)) st)
      else if HasLocation p then
        push_arg (ArgFloat (Radius p))
          (add_cond (radius_fmt (idx st - 2) (idx st - 1) (idx st)) st)
      else st)"

definition add_name :: "SearchParams \<Rightarrow> bstate \<Rightarrow> bstate" where
  "add_name p st =
     (if Name p \<noteq> [] then
        push_arg (ArgString (''%'' @ Name p @ ''%'')) (add_cond (name_fmt (idx st) (idx st)) st)
      else st)"

definition add_area :: "SearchParams \<Rightarrow> bstate \<Rightarrow> bstate" where
  "add_area p st =
     (if Area p \<noteq> [] then
        push_arg (ArgString (''%'' @ Area p @ ''%'')) (add_cond (area_fmt (idx st)) st)
      else st)"

definition add_cuisine :: "SearchParams \<Rightarrow> bstate \<Rightarrow> bstate" where
  "add_cuisine p st =
     (if Cuisine p \<noteq> [] then
        push_arg (ArgString (Cuisine p)) (add_cond (cuisine_fmt (idx st)) st)
      else st)"

text \<open>
  The loop over the segments of a comma-separated list: one placeholder and one argument
  per segment; \<open>f\<close> is what the loop does to the segment before it appends it.
\<close>

fun placeholder_loop ::
  "(string \<Rightarrow> string) \<Rightarrow> string list \<Rightarrow> sql list \<Rightarrow> bstate \<Rightarrow> sql list \<times> bstate" where
  "placeholder_loop f [] placeholders st = (placeholders, st)"
| "placeholder_loop f (name # names) placeholders st =
     placeholder_loop f names (placeholders @ [[Ph (idx st)]]) (push_arg (ArgString (f name)) st)"

definition add_cuisines :: "SearchParams \<Rightarrow> bstate \<Rightarrow> bstate" where
  "add_cuisines p st =
     (if Cuisines p \<noteq> [] then
        (let names = Split (Cuisines p) (CHR '','');
             (placeholders, st) = placeholder_loop TrimSpace names [] st
         in add_cond (cuisines_fmt (Join placeholders [Lit '',''])) st)
      else st)"

definition add_cuisine_ids :: "SearchParams \<Rightarrow> bstate \<Rightarrow> bstate" where
  "add_cuisine_ids p st =
     (if CuisineIds p \<noteq> [] then
        (let ids = Split (CuisineIds p) (CHR '','');
             (placeholders, st) = placeholder_loop (\<lambda>id. id) ids [] st
         in add_cond (cuisine_ids_fmt (Join placeholders [Lit '',''])) st)
      else st)"

definition add_meal_type :: "SearchParams \<Rightarrow> bstate \<Rightarrow> bstate" where
  "add_meal_type p st =
     (if MealType p \<noteq> [] then
        push_arg (ArgString (MealType p)) (add_cond (meal_type_fmt (idx st)) st)
      else st)"

definition add_meal_types :: "SearchParams \<Rightarrow> bstate \<Rightarrow> bstate" where
  "add_meal_types p st =
     (if MealTypes p \<noteq> [] then
        (let names = Split (MealTypes p) (CHR '','');
             (placeholders, st) = placeholder_loop TrimSpace names [] st
         in add_cond (meal_types_fmt (Join placeholders [Lit '',''])) st)
      else st)"

definition add_meal_type_ids :: "SearchParams \<Rightarrow> bstate \<Rightarrow> bstate" where
  "add_meal_type_ids p st =
     (if MealTypeIds p \<noteq> [] then
        (let ids = Split (MealTypeIds p) (CHR '','');
             (placeholders, st) = placeholder_loop (\<lambda>id. id) ids [] st
         in add_cond (meal_type_ids_fmt (Join placeholders [Lit '',''])) st)
      else st)"

definition add_min_cost :: "SearchParams \<Rightarrow> bstate \<Rightarrow> bstate" where
  "add_min_cost p st =
     (if MinCost p > 0 then push_arg (ArgInt (MinCost p)) (add_cond (min_cost_fmt (idx st)) st)
      else st)"

definition add_max_cost :: "SearchParams \<Rightarrow> bstate \<Rightarrow> bstate" where
  "add_max_cost p st =
     (if MaxCost p > 0 then push_arg (ArgInt (MaxCost p)) (add_cond (max_cost_fmt (idx st)) st)
      else st)"

definition add_rating :: "SearchParams \<Rightarrow> bstate \<Rightarrow> bstate" where
  "add_rating p st =
     (if fgt0 (Rating p) then push_arg (ArgFloat (Rating p)) (add_cond (rating_fmt (idx st)) st)
      else st)"

definition add_discount :: "SearchParams \<Rightarrow> bstate \<Rightarrow> bstate" where
  "add_discount p st =
     (if fgt0 (Discount p)
      then push_arg (ArgFloat (Discount p)) (add_cond (discount_fmt (idx st)) st)
      else st)"

definition add_free :: "SearchParams \<Rightarrow> bstate \<Rightarrow> bstate" where
  "add_free p st = (if Free p then add_cond free_cond st else st)"

text \<open>The filters after the geographic block, lines 124 to 227.\<close>

definition add_filters :: "SearchParams \<Rightarrow> bstate \<Rightarrow> bstate" where
  "add_filters p st =
     (let st = add_city_or_radius p st;
          st = add_name p st;
          st = add_area p st;
          st = add_cuisine p st;
          st = add_cuisines p st;
          st = add_cuisine_ids p st;
          st = add_meal_type p st;
          st = add_meal_types p st;
          st = add_meal_type_ids p st;
          st = add_min_cost p st;
          st = add_max_cost p st;
          st = add_rating p st;
          st = add_discount p st;
          st = add_free p st
      in add_cond duplicate_cond st)"

definition init_state :: bstate where
  "init_state = \<lparr>args = [], conditions = [], idx = 1\<rparr>"

text \<open>The state when the last condition has been appended, with the distance expression.\<close>

definition build :: "SearchParams \<Rightarrow> sql \<times> bstate" where
  "build p = (let (distanceExpr, st) = add_location p init_state in (distanceExpr, add_filters p st))"

definition whereStr :: "sql list \<Rightarrow> sql" where
  "whereStr conds = Lit ''WHERE '' # Join conds [Lit '' AND '']"

definition selectFields :: string where
  "selectFields = ''r.id, r.restaurant_name, r.city, r.area, r.cost_for_two, r.rating, r.latitude, r.longitude, r.image_url, r.effective_discount, r.free, r.offer, r.percentage''"

definition countQuery :: "sql \<Rightarrow> sql" where
  "countQuery w = Lit ''SELECT COUNT(*) FROM restaurants r '' # w"

definition resultQuery :: "sql \<Rightarrow> sql \<Rightarrow> sql" where
  "resultQuery distanceExpr w =
     [Lit ([nl, tab, tab] @ ''SELECT ''), Lit selectFields, Lit '', ''] @ distanceExpr @
     [Lit ('' as distance,'' @ [nl, tab, tab] @
        ''       COALESCE((SELECT json_agg(json_build_object('id', c.id, 'cuisine_name', c.cuisine_name)) FROM restaurant_cuisines rc JOIN cuisines c ON rc.cuisine_id = c.id WHERE rc.restaurant_id = r.id), '[]') as cuisines,'' @
        [nl, tab, tab] @
        ''       COALESCE((SELECT json_agg(json_build_object('id', m.id, 'meal_type', m.meal_type)) FROM restaurant_meal_types rmt JOIN meal_types m ON rmt.meal_type_id = m.id WHERE rmt.restaurant_id = r.id), '[]') as meal_types'' @
        [nl, tab, tab] @ ''FROM restaurants r '')] @
     w @ [Lit [nl, tab]]"

text \<open>
  The two templates and the argument vector, the templates in their \<open>Sprintf\<close> shape;
  \<open>BuildSearchQueries\<close> returns them as strings.
\<close>

definition templates :: "SearchParams \<Rightarrow> sql \<times> sql \<times> arg list" where
  "templates p =
     (let (distanceExpr, st) = build p;
          w = whereStr (conditions st)
      in (countQuery w, resultQuery distanceExpr w, args st))"

definition BuildSearchQueries :: "SearchParams \<Rightarrow> string \<times> string \<times> arg list" where
  "BuildSearchQueries p =
     (let (countQ, resultQ, as) = templates p in (render countQ, render resultQ, as))"

section \<open>Rows and responses\<close>

text \<open>
  \<open>models.Restaurant\<close> is a struct of sixteen scalar fields, the \<open>float64\<close> field \<open>Distance\<close>
  and the two slices \<open>Cuisines\<close> and \<open>MealTypes\<close>. No statement below looks into a field, so
  their types are parameters: \<open>'v\<close> for a scanned column, \<open>'j\<close> for a decoded JSON aggregate.
  The thirteen destinations that both calls of \<open>rows.Scan\<close> list first (\<open>ID\<close> to \<open>Percentage\<close>)
  are kept together in \<open>Columns\<close>; \<open>Distance = None\<close> is the field left at its zero value,
  which its tag \<open>omitempty\<close> keeps out of the JSON.
\<close>

record ('v, 'j) Restaurant =
  Columns :: "'v list"
  Distance :: "'v option"
  r_Cuisines :: 'j
  r_MealTypes :: 'j

datatype db_error = DbError string

text \<open>
  The database handle, as far as the handlers use it. \<open>QueryRowInt\<close> is
  \<open>db.QueryRow(q, args...).Scan(&n)\<close>; \<open>Query\<close> is \<open>db.Query\<close> with the rows that \<open>rows.Next\<close>
  then yields; the two \<open>Scan\<close> fields are \<open>rows.Scan\<close> with sixteen and with fifteen
  destinations; \<open>Unmarshal\<close> is \<open>json.Unmarshal\<close> into a zero-valued field, its error dropped.
\<close>

record ('row, 'v, 'j) database =
  QueryRowInt :: "string \<Rightarrow> arg list \<Rightarrow> db_error + int"
  Query :: "string \<Rightarrow> arg list \<Rightarrow> db_error + 'row list"
  ScanWithDistance :: "'row \<Rightarrow> db_error + ('v list \<times> 'v \<times> string \<times> string)"
  ScanBare :: "'row \<Rightarrow> db_error + ('v list \<times> string \<times> string)"
  Unmarshal :: "string \<Rightarrow> 'j"

definition ScanRestaurant ::
  "('row, 'v, 'j) database \<Rightarrow> 'row \<Rightarrow> bool \<Rightarrow> db_error + ('v, 'j) Restaurant" where
  "ScanRestaurant db row hasExtraFields =
     (if hasExtraFields then
        (case ScanWithDistance db row of
           Inl err \<Rightarrow> Inl err
         | Inr (cols, distance, cuisinesJSON, mealTypesJSON) \<Rightarrow>
             Inr \<lparr>Columns = cols, Distance = Some distance,
                  r_Cuisines = Unmarshal db cuisinesJSON, r_MealTypes = Unmarshal db mealTypesJSON\<rparr>)
      else
        (case ScanBare db row of
           Inl err \<Rightarrow> Inl err
         | Inr (cols, cuisinesJSON, mealTypesJSON) \<Rightarrow>
             Inr \<lparr>Columns = cols, Distance = None,
                  r_Cuisines = Unmarshal db cuisinesJSON, r_MealTypes = Unmarshal db mealTypesJSON\<rparr>))"

text \<open>The loop \<open>for rows.Next()\<close>: a row that does not scan is skipped.\<close>

fun scan_rows ::
  "('row, 'v, 'j) database \<Rightarrow> bool \<Rightarrow> 'row list \<Rightarrow> ('v, 'j) Restaurant list \<Rightarrow>
   ('v, 'j) Restaurant list" where
  "scan_rows db hasExtraFields [] results = results"
| "scan_rows db hasExtraFields (row # rows) results =
     (case ScanRestaurant db row hasExtraFields of
        Inr res \<Rightarrow> scan_rows db hasExtraFields rows (results @ [res])
      | Inl err \<Rightarrow> scan_rows db hasExtraFields rows results)"

text \<open>
  What \<open>encoding/json\<close> writes: a slice that is not nil is an array (\<open>JList\<close>, possibly empty),
  a nil slice would be \<open>null\<close>. A \<open>map[string]interface{}\<close> is the list of its entries.
\<close>

datatype ('v, 'j) json = JNull | JInt int | JList "('v, 'j) Restaurant list"

datatype ('v, 'j) body =
  JsonObject "(string \<times> ('v, 'j) json) list"
| JsonValue "('v, 'j) json"
| PlainText string

record ('v, 'j) response =
  status :: nat
  contentType :: string
  body :: "('v, 'j) body"

text \<open>What a handler does besides answering: its calls of the database and its log lines.\<close>

datatype effect =
  DbQueryRow string "arg list"
| DbQuery string "arg list"
| Log string db_error

definition StatusBadRequest :: nat where
  "StatusBadRequest = 400"

text \<open>\<open>http.Error\<close>: a plain-text body, the message and a newline.\<close>

definition http_Error :: "string \<Rightarrow> nat \<Rightarrow> ('v, 'j) response" where
  "http_Error msg code =
     \<lparr>status = code, contentType = ''text/plain; charset=utf-8'', body = PlainText (msg @ [nl])\<rparr>"

text \<open>The JSON answers: the header is set, the status stays 200.\<close>

definition json_response :: "('v, 'j) body \<Rightarrow> ('v, 'j) response" where
  "json_response b = \<lparr>status = 200, contentType = ''application/json'', body = b\<rparr>"

section \<open>The search handler\<close>

text \<open>
  The number of pages is \<open>int(math.Ceil(float64(totalCount) / float64(p.Limit)))\<close>: two
  conversions of an \<open>int\<close> to \<open>float64\<close>, one division of \<open>float64\<close>, \<open>math.Ceil\<close>, and the
  conversion back. A finite \<open>float64\<close> is \<open>m * 2 ^ e\<close> with a significand \<open>m\<close> of at most 53
  bits, and both the conversion and the division round the exact result to the nearest such
  value, a tie to the one with the even significand. The operations are written out on
  integers. The exponent is not bounded here: between two nonzero values of \<open>int\<close> the
  quotient lies between \<open>2 ^ - 63\<close> and \<open>2 ^ 63\<close>, far inside the normal range of \<open>float64\<close>.
\<close>

text \<open>\<open>x / y\<close> for \<open>0 \<le> x\<close> and \<open>0 < y\<close>, rounded to the nearest integer, a tie to the even one.\<close>

definition rne_div :: "int \<Rightarrow> int \<Rightarrow> int" where
  "rne_div x y =
     (let q = x div y; r = x mod y in
      if 2 * r < y then q else if 2 * r > y then q + 1 else if even q then q else q + 1)"

text \<open>The number of binary digits of a natural number.\<close>

fun bit_length :: "nat \<Rightarrow> nat" where
  "bit_length n = (if n = 0 then 0 else Suc (bit_length (n div 2)))"

declare bit_length.simps [simp del]

text \<open>
  \<open>float64(n)\<close> for an \<open>int\<close>, as the integer that the result is: a magnitude of more than 53
  bits is rounded to 53 significant bits.
\<close>

definition f64_of_int :: "int \<Rightarrow> int" where
  "f64_of_int n =
     (let a = \<bar>n\<bar>; k = bit_length (nat a) - 53 in sgn n * (rne_div a (2 ^ k) * 2 ^ k))"

text \<open>
  \<open>x / y\<close> on two \<open>float64\<close> with integer values, \<open>y\<close> not zero: the result \<open>(m, e)\<close> stands
  for \<open>m * 2 ^ e\<close>. With \<open>E\<close> the exponent of the exact quotient
  (\<open>2 ^ E \<le> \<bar>x\<bar> / \<bar>y\<bar> < 2 ^ (E + 1)\<close>), the significand is the quotient in units of
  \<open>2 ^ (E - 52)\<close>, rounded.
\<close>

definition f64_quot :: "int \<Rightarrow> int \<Rightarrow> int \<times> int" where
  "f64_quot x y =
     (if x = 0 then (0, 0)
      else
        (let a = \<bar>x\<bar>; b = \<bar>y\<bar>;
             d = int (bit_length (nat a)) - int (bit_length (nat b));
             E = (if (if 0 \<le> d then b * 2 ^ nat d \<le> a else b \<le> a * 2 ^ nat (- d)) then d else d - 1);
             e = E - 52;
             m = (if 0 \<le> e then rne_div a (b * 2 ^ nat e) else rne_div (a * 2 ^ nat (- e)) b)
         in (sgn x * sgn y * m, e)))"

text \<open>\<open>int(math.Ceil(v))\<close> for \<open>v = m * 2 ^ e\<close>; neither step rounds.\<close>

definition ceil_scaled :: "int \<times> int \<Rightarrow> int" where
  "ceil_scaled v =
     (case v of (m, e) \<Rightarrow> if 0 \<le> e then m * 2 ^ nat e else - (- m div 2 ^ nat (- e)))"

text \<open>
  Line 280. A limit of zero would make the quotient an infinity or NaN, whose conversion to
  \<open>int\<close> Go leaves to the implementation; the parser sets the limit to twelve, so that the
  case does not arise, and the model answers zero there.
\<close>

definition totalPages_of :: "int \<Rightarrow> int \<Rightarrow> int" where
  "totalPages_of totalCount limit =
     (if limit = 0 then 0
      else ceil_scaled (f64_quot (f64_of_int totalCount) (f64_of_int limit)))"

definition orderBy_of :: "string \<Rightarrow> string" where
  "orderBy_of sortKey =
     (if sortKey = ''rating_desc'' then ''ORDER BY rating DESC, id ASC''
      else if sortKey = ''cost_asc'' then ''ORDER BY cost_for_two ASC, id ASC''
      else ''ORDER BY effective_discount DESC, id ASC'')"

text \<open>\<open>fmt.Sprintf("%s %s LIMIT %d OFFSET %d", resultQ, orderBy, p.Limit, p.Offset)\<close>.\<close>

definition finalQuery_of :: "string \<Rightarrow> SearchParams \<Rightarrow> string" where
  "finalQuery_of resultQ p =
     resultQ @ '' '' @ orderBy_of (Sort p) @ '' LIMIT '' @ itoa (Limit p) @ '' OFFSET '' @
     itoa (Offset p)"

definition SearchHandler ::
  "strconv \<Rightarrow> ('row, 'v, 'j) database \<Rightarrow> Values \<Rightarrow> ('v, 'j) response \<times> effect list" where
  "SearchHandler sc db query =
     (let p = ParseSearchParams sc query;
          (countQ, resultQ, as) = BuildSearchQueries p
      in case QueryRowInt db countQ as of
           Inl err \<Rightarrow>
             (json_response (JsonObject [(''restaurants'', JList []), (''pages'', JInt 0)]),
              [DbQueryRow countQ as, Log ''Count query error:'' err])
         | Inr totalCount \<Rightarrow>
             (let totalPages = totalPages_of totalCount (Limit p) in
              if Page p > totalPages \<and> totalPages > 0 then
                (json_response
                   (JsonObject [(''restaurants'', JList []), (''pages'', JInt totalPages)]),
                 [DbQueryRow countQ as])
              else
                (let finalQuery = finalQuery_of resultQ p in
                 case Query db finalQuery as of
                   Inl err \<Rightarrow>
                     (http_Error ''Something went wrong'' StatusBadRequest,
                      [DbQueryRow countQ as, DbQuery finalQuery as,
                       Log ''Search result query error:'' err])
                 | Inr rows \<Rightarrow>
                     (json_response
                        (JsonObject [(''restaurants'', JList (scan_rows db True rows [])),
                                     (''pages'', JInt totalPages),
                                     (''total_count'', JInt totalCount)]),
                      [DbQueryRow countQ as, DbQuery finalQuery as]))))"

section \<open>The city listing handler\<close>

definition city_query :: string where
  "city_query =
     [nl, tab, tab, tab] @
     ''SELECT r.id, r.restaurant_name, r.city, r.area, r.cost_for_two, r.rating, r.latitude, r.longitude, r.image_url, r.effective_discount, r.free, r.offer, r.percentage,'' @
     [nl, tab, tab, tab, tab] @
     ''COALESCE((SELECT json_agg(json_build_object('id', c.id, 'cuisine_name', c.cuisine_name)) FROM restaurant_cuisines rc JOIN cuisines c ON rc.cuisine_id = c.id WHERE rc.restaurant_id = r.id), '[]') as cuisines,'' @
     [nl, tab, tab, tab, tab] @
     ''COALESCE((SELECT json_agg(json_build_object('id', m.id, 'meal_type', m.meal_type)) FROM restaurant_meal_types rmt JOIN meal_types m ON rmt.meal_type_id = m.id WHERE rmt.restaurant_id = r.id), '[]') as meal_types'' @
     [nl, tab, tab, tab] @
     ''FROM restaurants r'' @
     [nl, tab, tab, tab] @
     ''WHERE r.city ILIKE $1 AND r.is_duplicate = false'' @
     [nl, tab, tab, tab] @
     ''ORDER BY r.effective_discount DESC'' @
     [nl, tab, tab, tab] @
     ''LIMIT 10'' @
     [nl, tab, tab]"

text \<open>The path value \<open>city\<close> is the argument.\<close>

definition GetRestaurantsByCityHandler ::
  "('row, 'v, 'j) database \<Rightarrow> string \<Rightarrow> ('v, 'j) response \<times> effect list" where
  "GetRestaurantsByCityHandler db city =
     (if city = [] then (http_Error ''City is required'' StatusBadRequest, [])
      else
        (case Query db city_query [ArgString city] of
           Inl err \<Rightarrow>
             (http_Error ''Something went wrong'' StatusBadRequest,
              [DbQuery city_query [ArgString city]])
         | Inr rows \<Rightarrow>
             (json_response (JsonValue (JList (scan_rows db False rows []))),
              [DbQuery city_query [ArgString city]])))"

section \<open>The city listing query, as PostgreSQL reads it\<close>

text \<open>
  A row of table \<open>restaurants\<close>, as far as the text of \<open>city_query\<close> looks at it (the three
  columns may be NULL), with what the driver delivers for it.
\<close>

record 'row trow =
  t_city :: "string option"
  t_is_duplicate :: "bool option"
  t_effective_discount :: "real option"
  t_row :: 'row

text \<open>\<open>ORDER BY r.effective_discount DESC\<close>: NULL sorts first, then the larger discount.\<close>

definition desc_before :: "real option \<Rightarrow> real option \<Rightarrow> bool" where
  "desc_before a b =
     (case a of None \<Rightarrow> True | Some x \<Rightarrow> (case b of None \<Rightarrow> False | Some y \<Rightarrow> y \<le> x))"

fun insert_desc :: "'row trow \<Rightarrow> 'row trow list \<Rightarrow> 'row trow list" where
  "insert_desc x [] = [x]"
| "insert_desc x (y # ys) =
     (if desc_before (t_effective_discount x) (t_effective_discount y) then x # y # ys
      else y # insert_desc x ys)"

fun sort_desc :: "'row trow list \<Rightarrow> 'row trow list" where
  "sort_desc [] = []"
| "sort_desc (x # xs) = insert_desc x (sort_desc xs)"

text \<open>
  \<open>WHERE r.city ILIKE $1 AND r.is_duplicate = false\<close>: a NULL on either side is not true.
  The operator \<open>ILIKE\<close> is a parameter (text first, pattern second).
\<close>

definition city_match :: "(string \<Rightarrow> string \<Rightarrow> bool) \<Rightarrow> string \<Rightarrow> 'row trow \<Rightarrow> bool" where
  "city_match ilike city t =
     ((case t_city t of None \<Rightarrow> False | Some c \<Rightarrow> ilike c city) \<and> t_is_duplicate t = Some False)"

text \<open>The rows of the query: \<open>WHERE\<close>, \<open>ORDER BY\<close> (ties in the order of the table), \<open>LIMIT 10\<close>.\<close>

definition pg_city_query ::
  "(string \<Rightarrow> string \<Rightarrow> bool) \<Rightarrow> 'row trow list \<Rightarrow> string \<Rightarrow> 'row trow list" where
  "pg_city_query ilike tbl city = take 10 (sort_desc (filter (city_match ilike city) tbl))"

section \<open>What an answer reports\<close>

text \<open>
  What an answer reports: the entry of a JSON object under a key is an array (so not
  \<open>null\<close>), or is a number.
\<close>

definition has_list :: "string \<Rightarrow> ('v, 'j) response \<Rightarrow> bool" where
  "has_list k r =
     (case body r of
        JsonObject kv \<Rightarrow> (case map_of kv k of Some (JList rs) \<Rightarrow> True | _ \<Rightarrow> False)
      | _ \<Rightarrow> False)"

definition has_int :: "string \<Rightarrow> ('v, 'j) response \<Rightarrow> bool" where
  "has_int k r =
     (case body r of
        JsonObject kv \<Rightarrow> (case map_of kv k of Some (JInt n) \<Rightarrow> True | _ \<Rightarrow> False)
      | _ \<Rightarrow> False)"

definition reports_all_three :: "('v, 'j) response \<Rightarrow> bool" where
  "reports_all_three r =
     (has_list ''restaurants'' r \<and> has_int ''pages'' r \<and> has_int ''total_count'' r)"

section \<open>The builder as a run of steps\<close>

text \<open>
  For the proofs, a step of the builder is read as what it appends when the counter stands at
  \<open>i\<close>: the conditions and the arguments. \<open>extend\<close> appends them and moves the counter by the
  number of arguments.
\<close>

type_synonym delta = "int \<Rightarrow> sql list \<times> arg list"

definition extend :: "sql list \<Rightarrow> arg list \<Rightarrow> bstate \<Rightarrow> bstate" where
  "extend cs as st =
     st\<lparr>args := args st @ as, conditions := conditions st @ cs, idx := idx st + int (length as)\<rparr>"

definition ext :: "delta \<Rightarrow> bstate \<Rightarrow> bstate" where
  "ext d st = extend (fst (d (idx st))) (snd (d (idx st))) st"

text \<open>
  The three shapes of the steps after the geographic block: one condition with one argument,
  one condition over a comma-separated list, one condition without an argument.
\<close>

definition d_simple :: "bool \<Rightarrow> (int \<Rightarrow> sql) \<Rightarrow> arg \<Rightarrow> delta" where
  "d_simple g fmt v i = (if g then ([fmt i], [v]) else ([], []))"

definition d_list :: "bool \<Rightarrow> (sql \<Rightarrow> sql) \<Rightarrow> (string \<Rightarrow> string) \<Rightarrow> string list \<Rightarrow> delta" where
  "d_list g fmt f names i =
     (if g then ([fmt (Join (map (\<lambda>k. [Ph (i + int k)]) [0..<length names]) [Lit '',''])],
                 map (\<lambda>s. ArgString (f s)) names)
      else ([], []))"

definition d_const :: "bool \<Rightarrow> sql \<Rightarrow> delta" where
  "d_const g c i = (if g then ([c], []) else ([], []))"

text \<open>What a sequence of steps appends, started with the counter at \<open>i\<close>.\<close>

fun run_out :: "delta list \<Rightarrow> int \<Rightarrow> sql list \<times> arg list" where
  "run_out [] i = ([], [])"
| "run_out (d # ds) i =
     (fst (d i) @ fst (run_out ds (i + int (length (snd (d i))))),
      snd (d i) @ snd (run_out ds (i + int (length (snd (d i))))))"

definition d_city_or_radius :: "SearchParams \<Rightarrow> delta" where
  "d_city_or_radius p i =
     (if City p \<noteq> [] then ([city_fmt i], [ArgString (City p)])
      else if HasLocation p then ([radius_fmt (i - 2) (i - 1) i], [ArgFloat (Radius p)])
      else ([], []))"

definition filters_rest :: "SearchParams \<Rightarrow> delta list" where
  "filters_rest p =
     [d_simple (Name p \<noteq> []) (\<lambda>i. name_fmt i i) (ArgString (''%'' @ Name p @ ''%'')),
      d_simple (Area p \<noteq> []) area_fmt (ArgString (''%'' @ Area p @ ''%'')),
      d_simple (Cuisine p \<noteq> []) cuisine_fmt (ArgString (Cuisine p)),
      d_list (Cuisines p \<noteq> []) cuisines_fmt TrimSpace (Split (Cuisines p) (CHR '','')),
      d_list (CuisineIds p \<noteq> []) cuisine_ids_fmt (\<lambda>id. id) (Split (CuisineIds p) (CHR '','')),
      d_simple (MealType p \<noteq> []) meal_type_fmt (ArgString (MealType p)),
      d_list (MealTypes p \<noteq> []) meal_types_fmt TrimSpace (Split (MealTypes p) (CHR '','')),
      d_list (MealTypeIds p \<noteq> []) meal_type_ids_fmt (\<lambda>id. id) (Split (MealTypeIds p) (CHR '','')),
      d_simple (MinCost p > 0) min_cost_fmt (ArgInt (MinCost p)),
      d_simple (MaxCost p > 0) max_cost_fmt (ArgInt (MaxCost p)),
      d_simple (fgt0 (Rating p)) rating_fmt (ArgFloat (Rating p)),
      d_simple (fgt0 (Discount p)) discount_fmt (ArgFloat (Discount p)),
      d_const (Free p) free_cond,
      d_const True duplicate_cond]"

text \<open>The state after the geographic block.\<close>

definition loc_conds :: "SearchParams \<Rightarrow> sql list" where
  "loc_conds p =
     (if HasLocation p \<and> (Sort p = [] \<or> Sort p = ''discount'') then [cutoff_fmt 1 2] else [])"

definition loc_args :: "SearchParams \<Rightarrow> arg list" where
  "loc_args p = (if HasLocation p then [ArgFloat (Lon p), ArgFloat (Lat p)] else [])"

definition distanceExpr_of :: "SearchParams \<Rightarrow> sql" where
  "distanceExpr_of p = (if HasLocation p then distance_fmt 1 2 else [Lit ''0.0''])"

section \<open>Placeholders of a run\<close>

text \<open>The elements of a list in the order of their first occurrence.\<close>

definition firsts :: "'a list \<Rightarrow> 'a list" where
  "firsts xs = rev (remdups (rev xs))"

text \<open>The placeholder indices of a list of conditions, in order of occurrence.\<close>

definition cphs :: "'a tok list list \<Rightarrow> 'a list" where
  "cphs cs = concat (map phs cs)"

text \<open>The \<open>n\<close> indices from \<open>i\<close> on.\<close>

definition from_idx :: "int \<Rightarrow> nat \<Rightarrow> int list" where
  "from_idx i n = map (\<lambda>k. i + int k) [0..<n]"

text \<open>
  A step is fresh when it appends at most one condition, whose placeholders are, in the order
  of their first occurrence, the indices of the arguments the step appends.
\<close>

definition fresh :: "delta \<Rightarrow> bool" where
  "fresh d = (\<forall>i. length (fst (d i)) \<le> 1 \<and> firsts (cphs (fst (d i))) = from_idx i (length (snd (d i))))"

text \<open>
  The parts of a build: what the city-or-radius step appends, and what the later steps append
  from the index \<open>rest_from\<close> on.
\<close>

definition rest_from :: "SearchParams \<Rightarrow> int" where
  "rest_from p =
     int (length (loc_args p)) + 1 +
     int (length (snd (d_city_or_radius p (int (length (loc_args p)) + 1))))"

definition cr_out :: "SearchParams \<Rightarrow> sql list \<times> arg list" where
  "cr_out p = d_city_or_radius p (int (length (loc_args p)) + 1)"

definition rest_out :: "SearchParams \<Rightarrow> sql list \<times> arg list" where
  "rest_out p = run_out (filters_rest p) (rest_from p)"

section \<open>Binding the arguments\<close>

text \<open>The argument that the placeholder \<open>$i\<close> stands for: element \<open>i\<close> of the vector, counted from 1.\<close>

definition lookup :: "arg list \<Rightarrow> int \<Rightarrow> arg option" where
  "lookup as i = (if 1 \<le> i \<and> i \<le> int (length as) then Some (as ! nat (i - 1)) else None)"

text \<open>A template with every placeholder replaced by the argument it stands for.\<close>

definition bind :: "arg list \<Rightarrow> sql \<Rightarrow> arg option tok list" where
  "bind as t = map (map_tok (lookup as)) t"

text \<open>
  A step is stable with bound conditions \<open>V\<close> when binding the arguments turns what it appends
  into \<open>V\<close>, wherever in the vector the step runs.
\<close>

definition stable :: "delta \<Rightarrow> arg option tok list list \<Rightarrow> bool" where
  "stable d V =
     (\<forall>i pre post. int (length pre) + 1 = i \<longrightarrow>
        map (bind (pre @ snd (d i) @ post)) (fst (d i)) = V)"

text \<open>The values of a comma-separated list, one per segment, joined as the code joins them.\<close>

definition in_list :: "(string \<Rightarrow> string) \<Rightarrow> string \<Rightarrow> arg option tok list" where
  "in_list f s = Join (map (\<lambda>x. [Ph (Some (ArgString (f x)))]) (Split s (CHR '',''))) [Lit '','']"

text \<open>
  The predicates that a filter set asks for, with the values in place of the placeholders: the
  rules 2 to 8 of the predicate builder, in their order.
\<close>

definition intended_where :: "SearchParams \<Rightarrow> arg option tok list list" where
  "intended_where p =
     (if HasLocation p \<and> (Sort p = [] \<or> Sort p = ''discount'')
      then [cutoff_fmt (Some (ArgFloat (Lon p))) (Some (ArgFloat (Lat p)))] else []) @
     (if City p \<noteq> [] then [city_fmt (Some (ArgString (City p)))]
      else if HasLocation p
      then [radius_fmt (Some (ArgFloat (Lon p))) (Some (ArgFloat (Lat p))) (Some (ArgFloat (Radius p)))]
      else []) @
     (if Name p \<noteq> []
      then [name_fmt (Some (ArgString (''%'' @ Name p @ ''%''))) (Some (ArgString (''%'' @ Name p @ ''%'')))]
      else []) @
     (if Area p \<noteq> [] then [area_fmt (Some (ArgString (''%'' @ Area p @ ''%'')))] else []) @
     (if Cuisine p \<noteq> [] then [cuisine_fmt (Some (ArgString (Cuisine p)))] else []) @
     (if Cuisines p \<noteq> [] then [cuisines_fmt (in_list TrimSpace (Cuisines p))] else []) @
     (if CuisineIds p \<noteq> [] then [cuisine_ids_fmt (in_list (\<lambda>id. id) (CuisineIds p))] else []) @
     (if MealType p \<noteq> [] then [meal_type_fmt (Some (ArgString (MealType p)))] else []) @
     (if MealTypes p \<noteq> [] then [meal_types_fmt (in_list TrimSpace (MealTypes p))] else []) @
     (if MealTypeIds p \<noteq> [] then [meal_type_ids_fmt (in_list (\<lambda>id. id) (MealTypeIds p))] else []) @
     (if MinCost p > 0 then [min_cost_fmt (Some (ArgInt (MinCost p)))] else []) @
     (if MaxCost p > 0 then [max_cost_fmt (Some (ArgInt (MaxCost p)))] else []) @
     (if fgt0 (Rating p) then [rating_fmt (Some (ArgFloat (Rating p)))] else []) @
     (if fgt0 (Discount p) then [discount_fmt (Some (ArgFloat (Discount p)))] else []) @
     (if Free p then [free_cond] else []) @
     [duplicate_cond]"

definition intended_distance :: "SearchParams \<Rightarrow> arg option tok list" where
  "intended_distance p =
     (if HasLocation p then distance_fmt (Some (ArgFloat (Lon p))) (Some (ArgFloat (Lat p)))
      else [Lit ''0.0''])"

text \<open>The same predicates from the name filter on, one list per step.\<close>

definition intended_rest :: "SearchParams \<Rightarrow> arg option tok list list list" where
  "intended_rest p =
     [if Name p \<noteq> []
      then [name_fmt (Some (ArgString (''%'' @ Name p @ ''%''))) (Some (ArgString (''%'' @ Name p @ ''%'')))]
      else [],
      if Area p \<noteq> [] then [area_fmt (Some (ArgString (''%'' @ Area p @ ''%'')))] else [],
      if Cuisine p \<noteq> [] then [cuisine_fmt (Some (ArgString (Cuisine p)))] else [],
      if Cuisines p \<noteq> [] then [cuisines_fmt (in_list TrimSpace (Cuisines p))] else [],
      if CuisineIds p \<noteq> [] then [cuisine_ids_fmt (in_list (\<lambda>id. id) (CuisineIds p))] else [],
      if MealType p \<noteq> [] then [meal_type_fmt (Some (ArgString (MealType p)))] else [],
      if MealTypes p \<noteq> [] then [meal_types_fmt (in_list TrimSpace (MealTypes p))] else [],
      if MealTypeIds p \<noteq> [] then [meal_type_ids_fmt (in_list (\<lambda>id. id) (MealTypeIds p))] else [],
      if MinCost p > 0 then [min_cost_fmt (Some (ArgInt (MinCost p)))] else [],
      if MaxCost p > 0 then [max_cost_fmt (Some (ArgInt (MaxCost p)))] else [],
      if fgt0 (Rating p) then [rating_fmt (Some (ArgFloat (Rating p)))] else [],
      if fgt0 (Discount p) then [discount_fmt (Some (ArgFloat (Discount p)))] else [],
      if Free p then [free_cond] else [],
      if True then [duplicate_cond] else []]"

text \<open>The condition of a list filter over \<open>n\<close> segments, its placeholders numbered from \<open>k\<close>.\<close>

definition in_cond :: "(sql \<Rightarrow> sql) \<Rightarrow> int \<Rightarrow> nat \<Rightarrow> sql" where
  "in_cond fmt k n = fmt (Join (map (\<lambda>j. [Ph (k + int j)]) [0..<n]) [Lit '',''])"

text \<open>
  A list filter of value \<open>s\<close> is served: the conditions contain its predicate with one
  placeholder per segment of \<open>s\<close>, and the placeholder of segment \<open>j\<close> stands for \<open>f\<close> of that
  segment.
\<close>

definition list_filter_served ::
  "SearchParams \<Rightarrow> (sql \<Rightarrow> sql) \<Rightarrow> (string \<Rightarrow> string) \<Rightarrow> string \<Rightarrow> bool" where
  "list_filter_served p fmt f s =
     (\<exists>k. in_cond fmt k (length (Split s (CHR '',''))) \<in> set (conditions (snd (build p))) \<and>
          phs (in_cond fmt k (length (Split s (CHR '','')))) =
            from_idx k (length (Split s (CHR '',''))) \<and>
          (\<forall>j < length (Split s (CHR '','')).
              lookup (args (snd (build p))) (k + int j) =
                Some (ArgString (f (Split s (CHR '','') ! j)))))"

section \<open>The placeholders of a query string\<close>

definition is_digit :: "char \<Rightarrow> bool" where
  "is_digit c = (c \<in> set ''0123456789'')"

definition digit_value :: "char \<Rightarrow> nat" where
  "digit_value c = of_char c - 48"

definition digits_value :: "string \<Rightarrow> nat" where
  "digits_value ds = foldl (\<lambda>n c. 10 * n + digit_value c) 0 ds"

text \<open>
  The parameters that PostgreSQL reads in a query string: a dollar sign followed by digits.
\<close>

function placeholders_of :: "string \<Rightarrow> int list" where
  "placeholders_of [] = []"
| "placeholders_of (c # cs) =
     (if c = CHR ''$'' \<and> takeWhile is_digit cs \<noteq> []
      then int (digits_value (takeWhile is_digit cs)) # placeholders_of (dropWhile is_digit cs)
      else placeholders_of cs)"
  by pat_completeness auto
termination
  by (relation "measure length") (auto simp: length_dropWhile_le less_Suc_eq_le)

declare placeholders_of.simps(2) [simp del]

text \<open>
  When the scan of a rendered template finds the placeholders of the template: no dollar sign
  in the literal text, no negative index, and no digit right after a placeholder.
\<close>

fun starts_ok :: "sql \<Rightarrow> bool" where
  "starts_ok [] = True"
| "starts_ok (Lit s # t) = (case s of [] \<Rightarrow> False | c # _ \<Rightarrow> \<not> is_digit c)"
| "starts_ok (Ph i # t) = True"

fun scan_ok :: "sql \<Rightarrow> bool" where
  "scan_ok [] = True"
| "scan_ok (Lit s # t) = (CHR ''$'' \<notin> set s \<and> scan_ok t)"
| "scan_ok (Ph i # t) = (0 \<le> i \<and> starts_ok t \<and> scan_ok t)"

definition cond_ok :: "sql \<Rightarrow> bool" where
  "cond_ok c = (c \<noteq> [] \<and> scan_ok c \<and> starts_ok c)"

section \<open>Concrete requests, filter sets and databases\<close>

definition sc0 :: strconv where
  "sc0 = \<lparr>Atoi = (\<lambda>s. if s = ''10'' then (10, False) else (0, True)),
          ParseFloat = (\<lambda>s. if s = ''18.5'' then (Finite 18.5, False) else (Finite 0, True))\<rparr>"

definition q0 :: Values where
  "q0 = [''page'' \<mapsto> [''10'']]"

definition db25 :: "(unit, unit, unit) database" where
  "db25 = \<lparr>QueryRowInt = (\<lambda>q as. Inr 25), Query = (\<lambda>q as. Inl (DbError ''connection refused'')),
           ScanWithDistance = (\<lambda>r. Inl (DbError ''scan'')), ScanBare = (\<lambda>r. Inl (DbError ''scan'')),
           Unmarshal = (\<lambda>s. ())\<rparr>"

text \<open>A database in which \<open>12 * 2 ^ 52 + 1\<close> records match and the page asked for is empty.\<close>

definition db_huge :: "(unit, unit, unit) database" where
  "db_huge = \<lparr>QueryRowInt = (\<lambda>q as. Inr (12 * 2 ^ 52 + 1)), Query = (\<lambda>q as. Inr []),
           ScanWithDistance = (\<lambda>r. Inl (DbError ''scan'')), ScanBare = (\<lambda>r. Inl (DbError ''scan'')),
           Unmarshal = (\<lambda>s. ())\<rparr>"

definition db_down :: "(unit, unit, unit) database" where
  "db_down = \<lparr>QueryRowInt = (\<lambda>q as. Inl (DbError ''connection refused'')),
           Query = (\<lambda>q as. Inl (DbError ''connection refused'')),
           ScanWithDistance = (\<lambda>r. Inl (DbError ''scan'')), ScanBare = (\<lambda>r. Inl (DbError ''scan'')),
           Unmarshal = (\<lambda>s. ())\<rparr>"

definition db_rows :: "(nat, nat, string) database" where
  "db_rows = \<lparr>QueryRowInt = (\<lambda>q as. Inr 2),
           Query = (\<lambda>q as. Inr [1, 0, 2]),
           ScanWithDistance = (\<lambda>r. if r = 0 then Inl (DbError ''scan'') else Inr ([r], 7, ''[]'', ''[]'')),
           ScanBare = (\<lambda>r. if r = 0 then Inl (DbError ''scan'') else Inr ([r], ''[]'', ''[]'')),
           Unmarshal = (\<lambda>s. s)\<rparr>"

definition tbl0 :: "nat trow list" where
  "tbl0 =
     [\<lparr>t_city = Some ''Pune'', t_is_duplicate = Some False, t_effective_discount = Some 0.5, t_row = 1\<rparr>,
      \<lparr>t_city = Some ''Pune'', t_is_duplicate = Some True, t_effective_discount = Some 0.9, t_row = 2\<rparr>,
      \<lparr>t_city = Some ''Mumbai'', t_is_duplicate = Some False, t_effective_discount = Some 0.8, t_row = 3\<rparr>,
      \<lparr>t_city = Some ''Pune'', t_is_duplicate = Some False, t_effective_discount = Some 0.7, t_row = 4\<rparr>]"

definition db_city :: "(nat, nat, string) database" where
  "db_city = \<lparr>QueryRowInt = (\<lambda>q as. Inr 2),
           Query = (\<lambda>q as. case as of [ArgString c] \<Rightarrow> Inr (map t_row (pg_city_query (=) tbl0 c))
                             | _ \<Rightarrow> Inl (DbError ''arguments'')),
           ScanWithDistance = (\<lambda>r. Inr ([r], 7, ''[]'', ''[]'')),
           ScanBare = (\<lambda>r. Inr ([r], ''[]'', ''[]'')),
           Unmarshal = (\<lambda>s. s)\<rparr>"

text \<open>Filter sets for the geographic predicates.\<close>

definition p_popular :: SearchParams where
  "p_popular = zeroParams\<lparr>Lat := Finite 18.5, Lon := Finite 73.8, Radius := Finite 50000,
     HasLocation := True, Sort := ''popularity''\<rparr>"

definition p_deals :: SearchParams where
  "p_deals = zeroParams\<lparr>Lat := Finite 18.5, Lon := Finite 73.8, Radius := Finite 250000,
     HasLocation := True, Sort := ''discount''\<rparr>"

definition p_city :: SearchParams where
  "p_city = zeroParams\<lparr>City := ''Pune'', Lat := Finite 18.5, Lon := Finite 73.8,
     Radius := Finite 50000, HasLocation := True, Sort := ''rating_desc''\<rparr>"

text \<open>A cuisine list with a trailing comma.\<close>

definition p_italian :: SearchParams where
  "p_italian = zeroParams\<lparr>Cuisines := ''Italian,''\<rparr>"

text \<open>A request whose latitude does not parse.\<close>

definition q_bad_lat :: Values where
  "q_bad_lat = [''lat'' \<mapsto> [''abc''], ''lon'' \<mapsto> [''18.5'']]"

text \<open>
  A request whose latitude is a number beyond the range of \<open>float64\<close>, and a \<open>strconv\<close>
  that answers it as Go's does: \<open>ParseFloat("1e999", 64)\<close> returns \<open>+Inf\<close> with a range
  error, a string that is no number returns 0 with a syntax error.
\<close>

definition sc_range :: strconv where
  "sc_range = \<lparr>Atoi = (\<lambda>s. if s = ''10'' then (10, False) else (0, True)),
          ParseFloat = (\<lambda>s. if s = ''18.5'' then (Finite 18.5, False)
                             else if s = ''1e999'' then (PosInf, True) else (Finite 0, True))\<rparr>"

definition q_range_lat :: Values where
  "q_range_lat = [''lat'' \<mapsto> [''1e999''], ''lon'' \<mapsto> [''18.5'']]"

text \<open>A request with a geographic point, a name and a list that names one cuisine twice.\<close>

definition p_full :: SearchParams where
  "p_full = zeroParams\<lparr>Name := ''pizza'', Cuisines := ''Thai, Thai'', Lat := Finite 18.5,
     Lon := Finite 73.8, Radius := Finite 50000, HasLocation := True\<rparr>"

section \<open>Evaluation\<close>

lemmas step_defs = add_location_def add_city_or_radius_def add_name_def add_area_def add_cuisine_def
  add_cuisines_def add_cuisine_ids_def add_meal_type_def add_meal_types_def add_meal_type_ids_def
  add_min_cost_def add_max_cost_def add_rating_def add_discount_def add_free_def add_filters_def
  add_cond_def push_arg_def build_def init_state_def templates_def BuildSearchQueries_def

lemmas parse_defs = ParseSearchParams_def Get_def parsePage_def parseName_def parseCost_def
      parseDiscount_def parseRadius_def zeroParams_def DefaultLimit_def wrap64_def

section \<open>Pagination\<close>

lemma Limit_parse: "Limit (ParseSearchParams sc query) = 12"
  by (simp add: ParseSearchParams_def zeroParams_def DefaultLimit_def Let_def)

lemma bit_length_le: "n < 2 ^ k \<Longrightarrow> bit_length n \<le> k"
proof (induction k arbitrary: n)
  case 0
  then show ?case by (simp add: bit_length.simps)
next
  case (Suc k)
  show ?case
  proof (cases "n = 0")
    case True
    then show ?thesis by (simp add: bit_length.simps)
  next
    case False
    have "n div 2 < 2 ^ k" using Suc.prems by simp
    then have "bit_length (n div 2) \<le> k" by (rule Suc.IH)
    then show ?thesis using False by (subst bit_length.simps) simp
  qed
qed

lemma bit_length_eq: "2 ^ k \<le> n \<Longrightarrow> n < 2 ^ Suc k \<Longrightarrow> bit_length n = Suc k"
proof (induction k arbitrary: n)
  case 0
  then have "n = 1" by simp
  then show ?case by (simp add: bit_length.simps)
next
  case (Suc k)
  have "2 ^ k \<le> n div 2" "n div 2 < 2 ^ Suc k" using Suc.prems by simp_all
  then have "bit_length (n div 2) = Suc k" by (rule Suc.IH)
  moreover have "n \<noteq> 0"
  proof -
    have "(0 :: nat) < 2 ^ Suc k" by simp
    then show ?thesis using Suc.prems(1) by linarith
  qed
  ultimately show ?case by (subst bit_length.simps) simp
qed

lemma rne_div_one: "rne_div x 1 = x"
  by (simp add: rne_div_def)

lemma rne_div_le:
  assumes "0 < y" and "x \<le> z * y"
  shows "rne_div x y \<le> z"
proof -
  have q: "x div y \<le> z"
  proof -
    have "x div y \<le> (z * y) div y" using assms by (intro zdiv_mono1) simp_all
    then show ?thesis using assms(1) by simp
  qed
  show ?thesis
  proof (cases "x div y = z")
    case True
    have "x = (x div y) * y + x mod y" by simp
    then have "x mod y \<le> 0" using assms(2) True by (metis add_le_same_cancel1)
    moreover have "0 \<le> x mod y" using assms(1) by simp
    ultimately have "x mod y = 0" by simp
    then show ?thesis using True assms(1) by (simp add: rne_div_def Let_def)
  next
    case False
    then have "x div y + 1 \<le> z" using q by simp
    then show ?thesis by (auto simp: rne_div_def Let_def)
  qed
qed

lemma rne_div_gt:
  assumes "0 < y" and "z * y + c \<le> x" and "y < 2 * c"
  shows "z < rne_div x y"
proof -
  have q: "z \<le> x div y"
  proof -
    have "z * y \<le> x" using assms by linarith
    then have "(z * y) div y \<le> x div y" using assms(1) by (intro zdiv_mono1) simp_all
    then show ?thesis using assms(1) by simp
  qed
  have ge: "x div y \<le> rne_div x y" by (auto simp: rne_div_def Let_def)
  show ?thesis
  proof (cases "x div y = z")
    case True
    have "x = (x div y) * y + x mod y" by simp
    then have "c \<le> x mod y" using assms(2) True by (metis add_le_cancel_left)
    then have "y < 2 * (x mod y)" using assms(3) by linarith
    then have "rne_div x y = x div y + 1" by (simp add: rne_div_def Let_def)
    then show ?thesis using True by simp
  next
    case False
    then show ?thesis using q ge by linarith
  qed
qed

lemma f64_of_int_small:
  assumes "0 \<le> n" and "n < 2 ^ 53"
  shows "f64_of_int n = n"
proof -
  have "nat n < 2 ^ 53" using assms by (simp add: nat_less_iff)
  then have "bit_length (nat n) \<le> 53" by (rule bit_length_le)
  then have "bit_length (nat \<bar>n\<bar>) - 53 = 0" using assms(1) by simp
  then show ?thesis using assms(1) by (auto simp: f64_of_int_def Let_def rne_div_one sgn_if)
qed

lemma div_mod_facts:
  assumes "0 < s"
  shows "(a div s) * s \<le> (a :: int)" and "a < (a div s) * s + s"
proof -
  have e: "(a div s) * s + a mod s = a" by simp
  have "0 \<le> a mod s" "a mod s < s" using assms by simp_all
  then show "(a div s) * s \<le> a" and "a < (a div s) * s + s" using e by linarith+
qed

lemma ceil_between:
  assumes "0 < s" and "(k - 1) * s < m" and "m \<le> k * s"
  shows "- (- m div s) = (k :: int)"
proof -
  let ?q = "- m div s"
  have 1: "?q * s \<le> - m" and 2: "- m < ?q * s + s"
    using div_mod_facts [OF assms(1), of "- m"] by simp_all
  have "(- k - 1) * s < ?q * s"
  proof -
    have "- (k * s) \<le> - m" using assms(3) by simp
    then have "- (k * s) < ?q * s + s" using 2 by linarith
    then show ?thesis by (simp add: algebra_simps)
  qed
  then have a: "- k - 1 < ?q" using assms(1) by (simp add: mult_less_cancel_right)
  have "?q * s < (1 - k) * s"
  proof -
    have "- m < (1 - k) * s" using assms(2) by (simp add: algebra_simps)
    then show ?thesis using 1 by linarith
  qed
  then have b: "?q < 1 - k" using assms(1) by (simp add: mult_less_cancel_right)
  show ?thesis using a b by linarith
qed

lemma f64_quot_pos:
  assumes "0 < x" and "0 < y"
  shows "\<exists>E. E \<le> int (bit_length (nat x)) - int (bit_length (nat y)) \<and>
             f64_quot x y =
               (if 0 \<le> E - 52 then rne_div x (y * 2 ^ nat (E - 52))
                else rne_div (x * 2 ^ nat (52 - E)) y, E - 52)"
proof -
  define d where "d = int (bit_length (nat x)) - int (bit_length (nat y))"
  define E where "E = (if (if 0 \<le> d then y * 2 ^ nat d \<le> x else y \<le> x * 2 ^ nat (- d)) then d else d - 1)"
  have a: "\<bar>x\<bar> = x" "\<bar>y\<bar> = y" "sgn x = 1" "sgn y = 1" "x \<noteq> 0" using assms by simp_all
  have m: "- (E - 52) = 52 - E" by simp
  have "f64_quot x y =
               (if 0 \<le> E - 52 then rne_div x (y * 2 ^ nat (E - 52))
                else rne_div (x * 2 ^ nat (52 - E)) y, E - 52)"
    unfolding f64_quot_def Let_def a d_def [symmetric] E_def [symmetric] m
    using a(5) by simp
  moreover have "E \<le> d" by (simp add: E_def)
  ultimately show ?thesis unfolding d_def by blast
qed

lemma totalPages_exact:
  assumes "0 \<le> n" and "n < 2 ^ 53"
  shows "totalPages_of n 12 = - (- n div 12)"
proof (cases "n = 0")
  case True
  then show ?thesis
    by (simp add: totalPages_of_def f64_of_int_small f64_quot_def ceil_scaled_def)
next
  case False
  then have pos: "0 < n" using assms(1) by simp
  define k where "k = - (- n div 12)"
  have k1: "n \<le> k * 12" and k2: "(k - 1) * 12 < n"
    unfolding k_def using div_mod_facts [of 12 "- n"] by simp_all
  have b12: "bit_length 12 = 4"
    using bit_length_eq [of 3 12] by simp
  have bn: "bit_length (nat n) \<le> 53"
    using assms by (intro bit_length_le) (simp add: nat_less_iff)
  obtain E where Ed: "E \<le> int (bit_length (nat n)) - int (bit_length (nat 12))"
    and q0: "f64_quot n 12 =
               (if 0 \<le> E - 52 then rne_div n (12 * 2 ^ nat (E - 52))
                else rne_div (n * 2 ^ nat (52 - E)) 12, E - 52)"
    using f64_quot_pos [OF pos, of 12] by auto
  define j where "j = nat (52 - E)"
  have E: "E \<le> 49" using Ed bn by (simp add: b12)
  then have j: "3 \<le> j" "\<not> 0 \<le> E - 52" "nat (- (E - 52)) = j" by (simp_all add: j_def)
  have q: "f64_quot n 12 = (rne_div (n * 2 ^ j) 12, E - 52)"
    using q0 j(2) by (simp add: j_def)
  have s8: "(8 :: int) \<le> 2 ^ j"
  proof -
    have "(2 :: int) ^ 3 \<le> 2 ^ j" using j(1) by (intro power_increasing) simp_all
    then show ?thesis by simp
  qed
  have up: "rne_div (n * 2 ^ j) 12 \<le> k * 2 ^ j"
  proof (rule rne_div_le)
    show "(0 :: int) < 12" by simp
    have "n * 2 ^ j \<le> (k * 12) * 2 ^ j" using k1 by (intro mult_right_mono) simp_all
    then show "n * 2 ^ j \<le> k * 2 ^ j * 12" by (simp add: mult.commute mult.left_commute)
  qed
  have lo: "(k - 1) * 2 ^ j < rne_div (n * 2 ^ j) 12"
  proof (rule rne_div_gt [where c = "2 ^ j"])
    show "(0 :: int) < 12" by simp
    have "(k - 1) * 12 + 1 \<le> n" using k2 by simp
    then have "((k - 1) * 12 + 1) * 2 ^ j \<le> n * 2 ^ j" by (intro mult_right_mono) simp_all
    then show "(k - 1) * 2 ^ j * 12 + 2 ^ j \<le> n * 2 ^ j" by (simp add: algebra_simps)
    show "(12 :: int) < 2 * 2 ^ j" using s8 by simp
  qed
  have c: "- (- rne_div (n * 2 ^ j) 12 div 2 ^ j) = k"
    using lo up by (intro ceil_between) simp_all
  have f12: "f64_of_int 12 = 12" by (rule f64_of_int_small) simp_all
  have "totalPages_of n 12 = ceil_scaled (f64_quot n 12)"
    using assms by (simp add: totalPages_of_def f64_of_int_small f12)
  also have "\<dots> = - (- rne_div (n * 2 ^ j) 12 div 2 ^ j)"
    unfolding q ceil_scaled_def using j(2,3) by simp
  finally show ?thesis using c by (simp add: k_def)
qed

lemma totalPages_huge: "totalPages_of (12 * 2 ^ 52 + 1) 12 = 2 ^ 52"
proof -
  have bl: "bit_length 54043195528445953 = 56"
    using bit_length_eq [of 55 54043195528445953] by simp
  have f: "f64_of_int 54043195528445953 = 54043195528445952"
    by (simp add: f64_of_int_def Let_def bl rne_div_def)
  have bl2: "bit_length 54043195528445952 = 56"
    using bit_length_eq [of 55 54043195528445952] by simp
  have b12: "bit_length 12 = 4"
    using bit_length_eq [of 3 12] by simp
  have f12: "f64_of_int 12 = 12" by (rule f64_of_int_small) simp_all
  have "f64_quot 54043195528445952 12 = (4503599627370496, 0)"
    by (simp add: f64_quot_def Let_def bl2 b12 rne_div_def)
  then show ?thesis
    by (simp add: totalPages_of_def f f12 ceil_scaled_def)
qed

lemma totalPages_25: "totalPages_of 25 12 = 3"
  using totalPages_exact [of 25] by simp

lemma totalPages_2: "totalPages_of 2 12 = 1"
  using totalPages_exact [of 2] by simp

text \<open>
  A count of \<open>12 * 2 ^ 52 + 1\<close> has 57 bits: \<open>float64\<close> rounds it to \<open>12 * 2 ^ 52\<close>, and the
  handler reports \<open>2 ^ 52\<close> pages where the ceiling of the count over twelve is \<open>2 ^ 52 + 1\<close>.
\<close>

theorem page_count_rounding_counterexample:
  "QueryRowInt db_huge (fst (BuildSearchQueries (ParseSearchParams sc0 q0)))
     (snd (snd (BuildSearchQueries (ParseSearchParams sc0 q0)))) = Inr (12 * 2 ^ 52 + 1) \<and>
   \<lceil>real_of_int (12 * 2 ^ 52 + 1) / real_of_int (Limit (ParseSearchParams sc0 q0))\<rceil> = 2 ^ 52 + 1 \<and>
   fst (SearchHandler sc0 db_huge q0) =
     json_response (JsonObject [(''restaurants'', JList []), (''pages'', JInt (2 ^ 52)),
                                (''total_count'', JInt (12 * 2 ^ 52 + 1))])"
proof -
  have pg: "Page (ParseSearchParams sc0 q0) = 10" "Limit (ParseSearchParams sc0 q0) = 12"
    by (simp_all add: parse_defs sc0_def q0_def Let_def)
  have tp: "totalPages_of 54043195528445953 12 = 4503599627370496"
    using totalPages_huge by simp
  have c: "\<lceil>real_of_int (12 * 2 ^ 52 + 1) / real_of_int 12\<rceil> = 2 ^ 52 + 1"
    by (simp add: ceiling_divide_eq_div)
  have h: "fst (SearchHandler sc0 db_huge q0) =
     json_response (JsonObject [(''restaurants'', JList []), (''pages'', JInt (2 ^ 52)),
                                (''total_count'', JInt (12 * 2 ^ 52 + 1))])"
    using pg tp by (simp add: SearchHandler_def Let_def db_huge_def split: prod.splits)
  show ?thesis using c h unfolding pg by (simp add: db_huge_def)
qed

text \<open>
  C5, as the code has it: the page size is twelve; when the count succeeds with a value from 0
  to below \<open>2 ^ 53\<close>, the number of pages is the ceiling of the count over the page size, the
  least number of pages of twelve that hold the count; for every count, when the requested
  page lies beyond a positive number of pages, the answer is the empty list with that number
  of pages, and the only call of the database is the count. With a count of 25 and page 10 the
  answer reports 3 pages.
\<close>

theorem page_overflow_short_circuit:
  assumes "p = ParseSearchParams sc query"
    and "BuildSearchQueries p = (countQ, resultQ, as)"
    and "QueryRowInt db countQ as = Inr totalCount"
    and "tp = totalPages_of totalCount (Limit p)"
  shows "Limit p = 12 \<and>
         (0 \<le> totalCount \<and> totalCount < 2 ^ 53 \<longrightarrow>
            tp = \<lceil>real_of_int totalCount / real_of_int (Limit p)\<rceil> \<and>
            (tp - 1) * 12 < totalCount \<and> totalCount \<le> tp * 12) \<and>
         (Page p > tp \<and> tp > 0 \<longrightarrow>
            SearchHandler sc db query =
              (json_response (JsonObject [(''restaurants'', JList []), (''pages'', JInt tp)]),
               [DbQueryRow countQ as])) \<and>
         (totalCount = 25 \<and> Page p = 10 \<longrightarrow>
            SearchHandler sc db query =
              (json_response (JsonObject [(''restaurants'', JList []), (''pages'', JInt 3)]),
               [DbQueryRow countQ as]))"
proof -
  have lim: "Limit p = 12" using assms(1) by (simp add: Limit_parse)
  have ex: "tp = \<lceil>real_of_int totalCount / real_of_int (Limit p)\<rceil> \<and>
            (tp - 1) * 12 < totalCount \<and> totalCount \<le> tp * 12"
    if r: "0 \<le> totalCount \<and> totalCount < 2 ^ 53"
  proof -
    have t: "tp = - (- totalCount div 12)"
      using totalPages_exact [of totalCount] r assms(4) lim by simp
    have "\<lceil>real_of_int totalCount / real_of_int 12\<rceil> = - (- totalCount div 12)"
      by (rule ceiling_divide_eq_div)
    moreover have "(tp - 1) * 12 < totalCount" "totalCount \<le> tp * 12"
      unfolding t using div_mod_facts [of 12 "- totalCount"] by simp_all
    ultimately show ?thesis using t lim by simp
  qed
  have over: "SearchHandler sc db query =
      (json_response (JsonObject [(''restaurants'', JList []), (''pages'', JInt tp)]),
       [DbQueryRow countQ as])" if "Page p > tp \<and> tp > 0"
    using that assms by (simp add: SearchHandler_def Let_def)
  have inst: "SearchHandler sc db query =
      (json_response (JsonObject [(''restaurants'', JList []), (''pages'', JInt 3)]),
       [DbQueryRow countQ as])" if "totalCount = 25 \<and> Page p = 10"
  proof -
    have "tp = 3" using that assms(4) lim totalPages_25 by simp
    then show ?thesis using over that by simp
  qed
  show ?thesis using lim ex over inst by blast
qed

text \<open>The request \<open>page=10\<close> against 25 matching records.\<close>

theorem page_overflow_witness:
  "Page (ParseSearchParams sc0 q0) = 10 \<and>
   totalPages_of 25 12 = \<lceil>real_of_int 25 / real_of_int 12\<rceil> \<and>
   SearchHandler sc0 db25 q0 =
     (json_response (JsonObject [(''restaurants'', JList []), (''pages'', JInt 3)]),
      [DbQueryRow (fst (BuildSearchQueries (ParseSearchParams sc0 q0))) []])"
proof -
  have p: "ParseSearchParams sc0 q0 = zeroParams\<lparr>Page := 10, Offset := 108\<rparr>"
    by (simp add: parse_defs sc0_def q0_def Let_def)
  have as: "snd (snd (BuildSearchQueries (ParseSearchParams sc0 q0))) = []"
    unfolding p by (simp add: step_defs zeroParams_def Let_def)
  have b: "BuildSearchQueries (ParseSearchParams sc0 q0) =
      (fst (BuildSearchQueries (ParseSearchParams sc0 q0)),
       fst (snd (BuildSearchQueries (ParseSearchParams sc0 q0))), [])"
    using as by (metis prod.collapse)
  have c: "QueryRowInt db25 (fst (BuildSearchQueries (ParseSearchParams sc0 q0))) [] = Inr 25"
    by (simp add: db25_def)
  have pg: "Page (ParseSearchParams sc0 q0) = 10" unfolding p by simp
  show ?thesis
    using page_overflow_short_circuit [OF refl b c refl] pg by (simp add: Limit_parse)
qed

section \<open>Failures of the two queries\<close>

text \<open>
  C6: when the count query that the handler runs fails, the answer is the JSON object with an
  empty list and zero pages, with status 200; when the fetch query that it runs fails, the
  answer is status 400 with the fixed text, whatever the error was.
\<close>

theorem failure_asymmetry:
  "(\<forall>q a e. DbQueryRow q a \<in> set (snd (SearchHandler sc db query)) \<and> QueryRowInt db q a = Inl e \<longrightarrow>
       fst (SearchHandler sc db query) =
         json_response (JsonObject [(''restaurants'', JList []), (''pages'', JInt 0)]) \<and>
       status (fst (SearchHandler sc db query)) = 200) \<and>
   (\<forall>q a e. DbQuery q a \<in> set (snd (SearchHandler sc db query)) \<and> Query db q a = Inl e \<longrightarrow>
       fst (SearchHandler sc db query) = http_Error ''Something went wrong'' StatusBadRequest \<and>
       status (fst (SearchHandler sc db query)) = 400 \<and>
       body (fst (SearchHandler sc db query)) = PlainText (''Something went wrong'' @ [nl]))"
  by (auto simp: SearchHandler_def Let_def json_response_def http_Error_def StatusBadRequest_def
      split: sum.splits prod.splits if_splits)

theorem failure_asymmetry_witness:
  "fst (SearchHandler sc0 db_down q0) =
     json_response (JsonObject [(''restaurants'', JList []), (''pages'', JInt 0)]) \<and>
   fst (SearchHandler sc0 db25 Map.empty) = http_Error ''Something went wrong'' StatusBadRequest"
proof -
  obtain cq rq as where b: "BuildSearchQueries (ParseSearchParams sc0 q0) = (cq, rq, as)"
    using prod_cases3 by blast
  have e1: "DbQueryRow cq as \<in> set (snd (SearchHandler sc0 db_down q0))"
    using b by (simp add: SearchHandler_def Let_def db_down_def)
  have f1: "QueryRowInt db_down cq as = Inl (DbError ''connection refused'')"
    by (simp add: db_down_def)
  obtain cq' rq' as' where b': "BuildSearchQueries (ParseSearchParams sc0 Map.empty) = (cq', rq', as')"
    using prod_cases3 by blast
  have pg: "Page (ParseSearchParams sc0 Map.empty) = 1" "Limit (ParseSearchParams sc0 Map.empty) = 12"
    by (simp_all add: parse_defs sc0_def Let_def)
  have tp: "totalPages_of 25 12 = 3" by (rule totalPages_25)
  have e2: "DbQuery (finalQuery_of rq' (ParseSearchParams sc0 Map.empty)) as'
      \<in> set (snd (SearchHandler sc0 db25 Map.empty))"
    using b' pg tp by (simp add: SearchHandler_def Let_def db25_def)
  have f2: "Query db25 (finalQuery_of rq' (ParseSearchParams sc0 Map.empty)) as'
      = Inl (DbError ''connection refused'')"
    by (simp add: db25_def)
  show ?thesis
    using failure_asymmetry [of sc0 db_down q0] failure_asymmetry [of sc0 db25 Map.empty] e1 f1 e2 f2
    by blast
qed

section \<open>What the answers report\<close>

text \<open>
  The answers to a failed count and to a page beyond the last one carry the list and the number
  of pages, and no total count; the answer to a failed fetch is plain text.
\<close>

theorem all_three_counterexample:
  "\<not> reports_all_three (fst (SearchHandler sc0 db_down q0)) \<and>
   \<not> reports_all_three (fst (SearchHandler sc0 db25 q0)) \<and>
   \<not> reports_all_three (fst (SearchHandler sc0 db25 Map.empty))"
proof -
  have pg: "Page (ParseSearchParams sc0 q0) = 10" "Limit (ParseSearchParams sc0 q0) = 12"
    by (simp_all add: parse_defs sc0_def q0_def Let_def)
  have pg1: "Page (ParseSearchParams sc0 Map.empty) = 1" "Limit (ParseSearchParams sc0 Map.empty) = 12"
    by (simp_all add: parse_defs sc0_def Let_def)
  have tp: "totalPages_of 25 12 = 3" by (rule totalPages_25)
  have "\<not> reports_all_three (fst (SearchHandler sc0 db_down q0))"
    by (simp add: SearchHandler_def Let_def db_down_def reports_all_three_def has_int_def
        json_response_def split: prod.splits)
  moreover have "\<not> reports_all_three (fst (SearchHandler sc0 db25 q0))"
    using pg tp by (simp add: SearchHandler_def Let_def db25_def reports_all_three_def has_int_def
        json_response_def split: prod.splits)
  moreover have "\<not> reports_all_three (fst (SearchHandler sc0 db25 Map.empty))"
    using pg1 tp by (simp add: SearchHandler_def Let_def db25_def reports_all_three_def has_list_def
        http_Error_def split: prod.splits)
  ultimately show ?thesis by simp
qed

text \<open>
  C7, as the code has it: an answer of the search handler is either the plain-text error of a
  failed fetch, or a JSON object with status 200 that reports the result list (an array, never
  \<open>null\<close>) and the number of pages; the answer to a fetch that succeeded reports the total
  count as well.
\<close>

theorem json_answers_report:
  "(fst (SearchHandler sc db query) = http_Error ''Something went wrong'' StatusBadRequest \<or>
    status (fst (SearchHandler sc db query)) = 200 \<and>
    has_list ''restaurants'' (fst (SearchHandler sc db query)) \<and>
    has_int ''pages'' (fst (SearchHandler sc db query))) \<and>
   (\<forall>q a rows. DbQuery q a \<in> set (snd (SearchHandler sc db query)) \<and> Query db q a = Inr rows \<longrightarrow>
      reports_all_three (fst (SearchHandler sc db query)))"
  by (auto simp: SearchHandler_def Let_def json_response_def reports_all_three_def has_list_def
      has_int_def split: sum.splits prod.splits if_splits)

theorem json_answers_report_witness:
  "reports_all_three (fst (SearchHandler sc0 db_rows Map.empty)) \<and>
   fst (SearchHandler sc0 db_rows Map.empty) =
     json_response (JsonObject [(''restaurants'',
        JList [\<lparr>Columns = [1], Distance = Some 7, r_Cuisines = ''[]'', r_MealTypes = ''[]''\<rparr>,
               \<lparr>Columns = [2], Distance = Some 7, r_Cuisines = ''[]'', r_MealTypes = ''[]''\<rparr>]),
        (''pages'', JInt 1), (''total_count'', JInt 2)])"
proof -
  obtain cq rq as where b: "BuildSearchQueries (ParseSearchParams sc0 Map.empty) = (cq, rq, as)"
    using prod_cases3 by blast
  have pg: "Page (ParseSearchParams sc0 Map.empty) = 1" "Limit (ParseSearchParams sc0 Map.empty) = 12"
    by (simp_all add: parse_defs sc0_def Let_def)
  have tp: "totalPages_of 2 12 = 1" by (rule totalPages_2)
  have e: "DbQuery (finalQuery_of rq (ParseSearchParams sc0 Map.empty)) as
      \<in> set (snd (SearchHandler sc0 db_rows Map.empty))"
    using b pg tp by (simp add: SearchHandler_def Let_def db_rows_def)
  have f: "Query db_rows (finalQuery_of rq (ParseSearchParams sc0 Map.empty)) as = Inr [1, 0, 2]"
    by (simp add: db_rows_def)
  have r: "reports_all_three (fst (SearchHandler sc0 db_rows Map.empty))"
    using json_answers_report [of sc0 db_rows Map.empty] e f by blast
  have v: "fst (SearchHandler sc0 db_rows Map.empty) =
     json_response (JsonObject [(''restaurants'',
        JList [\<lparr>Columns = [1], Distance = Some 7, r_Cuisines = ''[]'', r_MealTypes = ''[]''\<rparr>,
               \<lparr>Columns = [2], Distance = Some 7, r_Cuisines = ''[]'', r_MealTypes = ''[]''\<rparr>]),
        (''pages'', JInt 1), (''total_count'', JInt 2)])"
    using b pg tp by (simp add: SearchHandler_def Let_def db_rows_def ScanRestaurant_def)
  show ?thesis using r v by simp
qed

section \<open>The city listing\<close>

lemma desc_before_total: "desc_before a b \<or> desc_before b a"
  by (auto simp: desc_before_def split: option.splits)

lemma desc_before_trans: "desc_before a b \<Longrightarrow> desc_before b c \<Longrightarrow> desc_before a c"
  by (auto simp: desc_before_def split: option.splits)

lemma set_insert_desc: "set (insert_desc x xs) = insert x (set xs)"
  by (induction xs) auto

lemma set_sort_desc: "set (sort_desc xs) = set xs"
  by (induction xs) (auto simp: set_insert_desc)

lemma sorted_insert_desc:
  "sorted_wrt (\<lambda>t u. desc_before (t_effective_discount t) (t_effective_discount u)) xs \<Longrightarrow>
   sorted_wrt (\<lambda>t u. desc_before (t_effective_discount t) (t_effective_discount u)) (insert_desc x xs)"
proof (induction xs)
  case Nil
  then show ?case by simp
next
  case (Cons y ys)
  show ?case
  proof (cases "desc_before (t_effective_discount x) (t_effective_discount y)")
    case True
    then have "\<forall>z\<in>set ys. desc_before (t_effective_discount x) (t_effective_discount z)"
      using Cons.prems desc_before_trans by auto
    with True Cons.prems show ?thesis by simp
  next
    case False
    then have "desc_before (t_effective_discount y) (t_effective_discount x)"
      using desc_before_total by blast
    with False Cons show ?thesis by (auto simp: set_insert_desc)
  qed
qed

lemma sorted_sort_desc:
  "sorted_wrt (\<lambda>t u. desc_before (t_effective_discount t) (t_effective_discount u)) (sort_desc xs)"
  by (induction xs) (auto intro: sorted_insert_desc)

lemma sorted_wrt_take_drop:
  "sorted_wrt R xs \<Longrightarrow> u \<in> set (take n xs) \<Longrightarrow> t \<in> set (drop n xs) \<Longrightarrow> R u t"
  by (metis append_take_drop_id sorted_wrt_append)

lemma scan_rows_acc:
  "scan_rows db h rows acc = acc @ scan_rows db h rows []"
proof (induction rows arbitrary: acc)
  case Nil
  then show ?case by simp
next
  case (Cons r rows)
  show ?case
  proof (cases "ScanRestaurant db r h")
    case (Inl e)
    then show ?thesis using Cons.IH [of acc] by simp
  next
    case (Inr res)
    then show ?thesis using Cons.IH [of "acc @ [res]"] Cons.IH [of "[res]"] by simp
  qed
qed

lemma scan_rows_length: "length (scan_rows db h rows []) \<le> length rows"
proof (induction rows)
  case Nil
  then show ?case by simp
next
  case (Cons r rows)
  show ?case
  proof (cases "ScanRestaurant db r h")
    case (Inl e)
    then show ?thesis using Cons by simp
  next
    case (Inr res)
    then show ?thesis using Cons scan_rows_acc [of db h rows "[res]"] by simp
  qed
qed

lemma ScanRestaurant_bare: "ScanRestaurant db r False = Inr res \<Longrightarrow> Distance res = None"
  by (auto simp: ScanRestaurant_def split: sum.splits prod.splits)

lemma scan_rows_bare: "res \<in> set (scan_rows db False rows []) \<Longrightarrow> Distance res = None"
proof (induction rows)
  case Nil
  then show ?case by simp
next
  case (Cons r rows)
  show ?case
  proof (cases "ScanRestaurant db r False")
    case (Inl e)
    then show ?thesis using Cons by simp
  next
    case (Inr x)
    then show ?thesis
      using Cons scan_rows_acc [of db False rows "[x]"] ScanRestaurant_bare [of db r x] by auto
  qed
qed

text \<open>
  C8: an empty city is answered with the client error and no call of the database. For a city
  that is not empty, when the database answers \<open>city_query\<close> as its text reads, the answer is
  the list of the rows that scan: at most ten, none with a distance, every one of a row of that
  city that is not a duplicate, in the order of falling discount and ahead of every matching
  row left out; when no row matches, the answer is the empty list, not an error.
\<close>

theorem city_listing:
  "GetRestaurantsByCityHandler db [] = (http_Error ''City is required'' StatusBadRequest, []) \<and>
   (city \<noteq> [] \<and> Query db city_query [ArgString city] = Inr (map t_row (pg_city_query ilike tbl city)) \<longrightarrow>
      GetRestaurantsByCityHandler db city =
        (json_response (JsonValue (JList (scan_rows db False (map t_row (pg_city_query ilike tbl city)) []))),
         [DbQuery city_query [ArgString city]]) \<and>
      length (scan_rows db False (map t_row (pg_city_query ilike tbl city)) []) \<le> 10 \<and>
      (\<forall>r \<in> set (scan_rows db False (map t_row (pg_city_query ilike tbl city)) []). Distance r = None) \<and>
      (\<forall>t \<in> set (pg_city_query ilike tbl city).
          t \<in> set tbl \<and> t_is_duplicate t = Some False \<and> (\<exists>c. t_city t = Some c \<and> ilike c city)) \<and>
      sorted_wrt (\<lambda>t u. desc_before (t_effective_discount t) (t_effective_discount u))
        (pg_city_query ilike tbl city) \<and>
      (\<forall>t \<in> set tbl. city_match ilike city t \<and> t \<notin> set (pg_city_query ilike tbl city) \<longrightarrow>
          (\<forall>u \<in> set (pg_city_query ilike tbl city).
              desc_before (t_effective_discount u) (t_effective_discount t))) \<and>
      ((\<forall>t \<in> set tbl. \<not> city_match ilike city t) \<longrightarrow>
          GetRestaurantsByCityHandler db city =
            (json_response (JsonValue (JList [])), [DbQuery city_query [ArgString city]])))"
proof -
  let ?R = "\<lambda>t u. desc_before (t_effective_discount t) (t_effective_discount u)"
  let ?q = "pg_city_query ilike tbl city"
  let ?s = "sort_desc (filter (city_match ilike city) tbl)"
  have empty: "GetRestaurantsByCityHandler db [] = (http_Error ''City is required'' StatusBadRequest, [])"
    by (simp add: GetRestaurantsByCityHandler_def)
  have len: "length ?q \<le> 10" by (simp add: pg_city_query_def)
  have len_rs: "length (scan_rows db False (map t_row ?q) []) \<le> 10"
    using scan_rows_length [of db False "map t_row ?q"] len by simp
  have nodist: "\<forall>r \<in> set (scan_rows db False (map t_row ?q) []). Distance r = None"
    using scan_rows_bare by blast
  have sub: "set ?q \<subseteq> set ?s" unfolding pg_city_query_def by (rule set_take_subset)
  have members: "\<forall>t \<in> set ?q.
      t \<in> set tbl \<and> t_is_duplicate t = Some False \<and> (\<exists>c. t_city t = Some c \<and> ilike c city)"
    using sub by (auto simp: set_sort_desc city_match_def split: option.splits)
  have sorted_all: "sorted_wrt ?R ?s" by (rule sorted_sort_desc)
  have sorted: "sorted_wrt ?R ?q"
    unfolding pg_city_query_def using sorted_all by (rule sorted_wrt_take)
  have top: "\<forall>t \<in> set tbl. city_match ilike city t \<and> t \<notin> set ?q \<longrightarrow>
      (\<forall>u \<in> set ?q. ?R u t)"
  proof (intro ballI impI)
    fix t u
    assume t: "t \<in> set tbl" "city_match ilike city t \<and> t \<notin> set ?q" and u: "u \<in> set ?q"
    have "t \<in> set ?s" using t by (simp add: set_sort_desc)
    then have "t \<in> set (take 10 ?s) \<union> set (drop 10 ?s)"
      by (metis append_take_drop_id set_append)
    then have "t \<in> set (drop 10 ?s)" using t by (simp add: pg_city_query_def)
    then show "?R u t"
      using sorted_wrt_take_drop [OF sorted_all, of u 10 t] u by (simp add: pg_city_query_def)
  qed
  have unknown: "?q = []" if "\<forall>t \<in> set tbl. \<not> city_match ilike city t"
  proof -
    have "filter (city_match ilike city) tbl = []" using that by (simp add: filter_empty_conv)
    then show ?thesis by (simp add: pg_city_query_def)
  qed
  have run: "GetRestaurantsByCityHandler db city =
        (json_response (JsonValue (JList (scan_rows db False (map t_row ?q) []))),
         [DbQuery city_query [ArgString city]])"
    if "city \<noteq> []" "Query db city_query [ArgString city] = Inr (map t_row ?q)"
    using that by (simp add: GetRestaurantsByCityHandler_def)
  show ?thesis
    using empty len_rs nodist members sorted top unknown run by (simp (no_asm_simp)) 
qed


theorem city_listing_witness:
  "GetRestaurantsByCityHandler db_city ''Pune'' =
     (json_response (JsonValue (JList
        [\<lparr>Columns = [4], Distance = None, r_Cuisines = ''[]'', r_MealTypes = ''[]''\<rparr>,
         \<lparr>Columns = [1], Distance = None, r_Cuisines = ''[]'', r_MealTypes = ''[]''\<rparr>])),
      [DbQuery city_query [ArgString ''Pune'']]) \<and>
   GetRestaurantsByCityHandler db_city ''Atlantis'' =
     (json_response (JsonValue (JList [])), [DbQuery city_query [ArgString ''Atlantis'']])"
proof -
  have q: "Query db_city city_query [ArgString c] = Inr (map t_row (pg_city_query (=) tbl0 c))" for c
    by (simp add: db_city_def)
  have v: "scan_rows db_city False (map t_row (pg_city_query (=) tbl0 ''Pune'')) [] =
        [\<lparr>Columns = [4], Distance = None, r_Cuisines = ''[]'', r_MealTypes = ''[]''\<rparr>,
         \<lparr>Columns = [1], Distance = None, r_Cuisines = ''[]'', r_MealTypes = ''[]''\<rparr>]"
    by (simp add: pg_city_query_def tbl0_def city_match_def desc_before_def ScanRestaurant_def
        db_city_def)
  have u: "\<forall>t \<in> set tbl0. \<not> city_match (=) ''Atlantis'' t"
    by (simp add: tbl0_def city_match_def)
  have ne: "''Pune'' \<noteq> []" "''Atlantis'' \<noteq> []" by simp_all
  have a: "GetRestaurantsByCityHandler db_city ''Pune'' =
     (json_response (JsonValue (JList
        (scan_rows db_city False (map t_row (pg_city_query (=) tbl0 ''Pune'')) []))),
      [DbQuery city_query [ArgString ''Pune'']])"
    using city_listing [of db_city "''Pune''" "(=)" tbl0] q ne by blast
  have b: "GetRestaurantsByCityHandler db_city ''Atlantis'' =
     (json_response (JsonValue (JList [])), [DbQuery city_query [ArgString ''Atlantis'']])"
    using city_listing [of db_city "''Atlantis''" "(=)" tbl0] q ne u by blast
  show ?thesis using a b v by simp
qed

section \<open>Lemmas on the predicate builder\<close>

lemma extend_nil [simp]: "extend [] [] st = st"
  by (simp add: extend_def)

lemma placeholder_loop_eq:
  "placeholder_loop f names placeholders st =
     (placeholders @ map (\<lambda>k. [Ph (idx st + int k)]) [0..<length names],
      extend [] (map (\<lambda>s. ArgString (f s)) names) st)"
proof (induction names arbitrary: placeholders st)
  case Nil
  then show ?case by simp
next
  case (Cons name names)
  have "map (\<lambda>k. [Ph (idx st + int k)]) [0..<length (name # names)] =
        [Ph (idx st)] # map (\<lambda>k. [Ph (idx st + 1 + int k)]) [0..<length names]"
    by (simp add: upt_conv_Cons map_Suc_upt [symmetric] del: upt_Suc) 
  then show ?case
    by (simp add: Cons.IH push_arg_def extend_def)
qed

lemma ext_run_out:
  "foldl (\<lambda>st d. ext d st) st ds =
     extend (fst (run_out ds (idx st))) (snd (run_out ds (idx st))) st"
proof (induction ds arbitrary: st)
  case Nil
  then show ?case by simp
next
  case (Cons d ds)
  show ?case
    by (simp add: Cons.IH) (simp add: ext_def extend_def add.assoc)
qed

lemma add_city_or_radius_ext: "add_city_or_radius p st = ext (d_city_or_radius p) st"
  by (simp add: add_city_or_radius_def ext_def d_city_or_radius_def extend_def push_arg_def
      add_cond_def)

lemma step_ext:
  "add_name p st =
     ext (d_simple (Name p \<noteq> []) (\<lambda>i. name_fmt i i) (ArgString (''%'' @ Name p @ ''%''))) st"
  "add_area p st = ext (d_simple (Area p \<noteq> []) area_fmt (ArgString (''%'' @ Area p @ ''%''))) st"
  "add_cuisine p st = ext (d_simple (Cuisine p \<noteq> []) cuisine_fmt (ArgString (Cuisine p))) st"
  "add_meal_type p st = ext (d_simple (MealType p \<noteq> []) meal_type_fmt (ArgString (MealType p))) st"
  "add_min_cost p st = ext (d_simple (MinCost p > 0) min_cost_fmt (ArgInt (MinCost p))) st"
  "add_max_cost p st = ext (d_simple (MaxCost p > 0) max_cost_fmt (ArgInt (MaxCost p))) st"
  "add_rating p st = ext (d_simple (fgt0 (Rating p)) rating_fmt (ArgFloat (Rating p))) st"
  "add_discount p st = ext (d_simple (fgt0 (Discount p)) discount_fmt (ArgFloat (Discount p))) st"
  "add_free p st = ext (d_const (Free p) free_cond) st"
  "add_cond duplicate_cond st = ext (d_const True duplicate_cond) st"
  by (simp_all add: add_name_def add_area_def add_cuisine_def add_meal_type_def add_min_cost_def
      add_max_cost_def add_rating_def add_discount_def add_free_def
      ext_def d_simple_def d_const_def extend_def push_arg_def add_cond_def)

lemma step_ext_list:
  "add_cuisines p st =
     ext (d_list (Cuisines p \<noteq> []) cuisines_fmt TrimSpace (Split (Cuisines p) (CHR '',''))) st"
  "add_cuisine_ids p st =
     ext (d_list (CuisineIds p \<noteq> []) cuisine_ids_fmt (\<lambda>id. id) (Split (CuisineIds p) (CHR '',''))) st"
  "add_meal_types p st =
     ext (d_list (MealTypes p \<noteq> []) meal_types_fmt TrimSpace (Split (MealTypes p) (CHR '',''))) st"
  "add_meal_type_ids p st =
     ext (d_list (MealTypeIds p \<noteq> []) meal_type_ids_fmt (\<lambda>id. id) (Split (MealTypeIds p) (CHR '',''))) st"
  by (simp_all add: add_cuisines_def add_cuisine_ids_def add_meal_types_def add_meal_type_ids_def
      placeholder_loop_eq ext_def d_list_def extend_def add_cond_def Let_def)

lemma add_filters_fold:
  "add_filters p st = foldl (\<lambda>st d. ext d st) st (d_city_or_radius p # filters_rest p)"
  by (simp add: add_filters_def Let_def filters_rest_def step_ext step_ext_list
      add_city_or_radius_ext)

lemma add_location_init:
  "add_location p init_state =
     (distanceExpr_of p,
      \<lparr>args = loc_args p, conditions = loc_conds p, idx = int (length (loc_args p)) + 1\<rparr>)"
  by (simp add: add_location_def init_state_def Let_def add_cond_def loc_conds_def loc_args_def
      distanceExpr_of_def)

lemma build_eq:
  "build p =
     (distanceExpr_of p,
      \<lparr>args = loc_args p @ snd (run_out (d_city_or_radius p # filters_rest p) (int (length (loc_args p)) + 1)),
       conditions = loc_conds p @ fst (run_out (d_city_or_radius p # filters_rest p) (int (length (loc_args p)) + 1)),
       idx = int (length (loc_args p)) + 1 +
             int (length (snd (run_out (d_city_or_radius p # filters_rest p) (int (length (loc_args p)) + 1))))\<rparr>)"
  unfolding build_def add_location_init add_filters_fold ext_run_out
  by (simp add: extend_def)

lemma set_firsts [simp]: "set (firsts xs) = set xs"
  by (simp add: firsts_def)

lemma remdups_append_filter:
  "remdups (xs @ ys) = filter (\<lambda>x. x \<notin> set ys) (remdups xs) @ remdups ys"
  by (induction xs) auto

lemma firsts_append: "firsts (xs @ ys) = firsts xs @ filter (\<lambda>y. y \<notin> set xs) (firsts ys)"
  by (simp add: firsts_def remdups_append_filter rev_filter)

lemma firsts_distinct: "distinct xs \<Longrightarrow> firsts xs = xs"
  by (simp add: firsts_def distinct_remdups_id)

lemma set_from_idx: "set (from_idx i n) = {i ..< i + int n}"
proof
  show "set (from_idx i n) \<subseteq> {i ..< i + int n}" by (auto simp: from_idx_def)
  show "{i ..< i + int n} \<subseteq> set (from_idx i n)"
  proof
    fix j assume "j \<in> {i ..< i + int n}"
    then have "nat (j - i) \<in> set [0..<n]" "j = i + int (nat (j - i))" by auto
    then show "j \<in> set (from_idx i n)" unfolding from_idx_def set_map by (rule_tac image_eqI)
  qed
qed

lemma distinct_from_idx: "distinct (from_idx i n)"
  by (simp add: from_idx_def distinct_map inj_on_def)

lemma from_idx_append: "from_idx i n @ from_idx (i + int n) m = from_idx i (n + m)"
proof -
  have "[n..<n + m] = map (\<lambda>k. k + n) [0..<m]"
    using map_add_upt [of n m] by (simp add: add.commute)
  then have "[0..<n + m] = [0..<n] @ map (\<lambda>k. k + n) [0..<m]"
    using upt_add_eq_append [of 0 n m] by simp
  then show ?thesis by (simp add: from_idx_def add.assoc add.commute o_def)
qed

lemma cphs_append [simp]: "cphs (xs @ ys) = cphs xs @ cphs ys"
  by (simp add: cphs_def)

lemma cphs_simps [simp]: "cphs [] = []" "cphs (c # cs) = phs c @ cphs cs"
  by (simp_all add: cphs_def)

lemma run_out_firsts:
  "\<forall>d \<in> set ds. fresh d \<Longrightarrow>
   firsts (cphs (fst (run_out ds i))) = from_idx i (length (snd (run_out ds i)))"
proof (induction ds arbitrary: i)
  case Nil
  then show ?case by (simp add: firsts_def from_idx_def)
next
  case (Cons d ds)
  let ?n = "length (snd (d i))"
  have d: "firsts (cphs (fst (d i))) = from_idx i ?n" using Cons.prems by (simp add: fresh_def)
  then have sd: "set (cphs (fst (d i))) = {i ..< i + int ?n}"
    by (metis set_firsts set_from_idx)
  have ih: "firsts (cphs (fst (run_out ds (i + int ?n)))) =
      from_idx (i + int ?n) (length (snd (run_out ds (i + int ?n))))"
    using Cons by simp
  have "filter (\<lambda>y. y \<notin> {i ..< i + int ?n}) (from_idx (i + int ?n) m) = from_idx (i + int ?n) m" for m
    by (rule filter_True) (auto simp: set_from_idx)
  then show ?case
    by (simp add: firsts_append d sd ih from_idx_append)
qed

lemma run_out_disjoint:
  "\<forall>d \<in> set ds. fresh d \<Longrightarrow>
   sorted_wrt (\<lambda>a b. set (phs a) \<inter> set (phs b) = {}) (fst (run_out ds i)) \<and>
   (\<forall>c \<in> set (fst (run_out ds i)). set (phs c) \<subseteq> {i ..< i + int (length (snd (run_out ds i)))})"
proof (induction ds arbitrary: i)
  case Nil
  then show ?case by simp
next
  case (Cons d ds)
  let ?n = "length (snd (d i))"
  let ?m = "length (snd (run_out ds (i + int ?n)))"
  have d: "firsts (cphs (fst (d i))) = from_idx i ?n" and l: "length (fst (d i)) \<le> 1"
    using Cons.prems by (simp_all add: fresh_def)
  have sd: "set (cphs (fst (d i))) = {i ..< i + int ?n}"
    using d by (metis set_firsts set_from_idx)
  have own: "\<forall>c \<in> set (fst (d i)). set (phs c) \<subseteq> {i ..< i + int ?n}"
    using sd by (auto simp: cphs_def)
  have ih: "sorted_wrt (\<lambda>a b. set (phs a) \<inter> set (phs b) = {}) (fst (run_out ds (i + int ?n)))"
    "\<forall>c \<in> set (fst (run_out ds (i + int ?n))). set (phs c) \<subseteq> {i + int ?n ..< i + int ?n + int ?m}"
    using Cons by simp_all
  have one: "sorted_wrt (\<lambda>a b. set (phs a) \<inter> set (phs b) = {}) (fst (d i))"
    using l by (cases "fst (d i)") (auto simp: Suc_le_eq)
  have cross: "\<forall>a \<in> set (fst (d i)). \<forall>b \<in> set (fst (run_out ds (i + int ?n))).
      set (phs a) \<inter> set (phs b) = {}"
    using own ih(2) by fastforce
  have "\<forall>c \<in> set (fst (d i)) \<union> set (fst (run_out ds (i + int ?n))).
      set (phs c) \<subseteq> {i ..< i + int ?n + int ?m}"
    using own ih(2) by fastforce
  then show ?case
    using one ih(1) cross by (simp add: sorted_wrt_append add.assoc)
qed

lemma phs_append [simp]: "phs (a @ b) = phs a @ phs b"
  by (induction a rule: phs.induct) simp_all

lemma phs_Join_Lit: "phs (Join xs [Lit s]) = concat (map phs xs)"
  by (induction xs "[Lit s :: 'a tok]" rule: Join.induct) simp_all

lemma phs_placeholders: "concat (map phs (map (\<lambda>k. [Ph (i + int k)]) ks)) = map (\<lambda>k. i + int k) ks"
  by (induction ks) simp_all

lemma from_idx_Suc: "from_idx i (Suc n) = i # from_idx (i + 1) n"
proof -
  have "from_idx i 1 @ from_idx (i + int 1) n = from_idx i (1 + n)" by (rule from_idx_append)
  then show ?thesis by (simp add: from_idx_def)
qed

lemma from_idx_0 [simp]: "from_idx i 0 = []"
  by (simp add: from_idx_def)

lemma fresh_simple: "(\<And>i. firsts (phs (fmt i)) = [i]) \<Longrightarrow> fresh (d_simple g fmt v)"
  by (simp add: fresh_def d_simple_def from_idx_Suc firsts_def)

lemma phs_Join_placeholders:
  "phs (Join (map (\<lambda>k. [Ph (i + int k)]) [0..<n]) [Lit s]) = from_idx i n"
  unfolding phs_Join_Lit phs_placeholders from_idx_def ..

lemma fresh_list:
  assumes "\<And>l. phs (fmt l) = phs l"
  shows "fresh (d_list g fmt f names)"
proof -
  have "firsts (from_idx i (length names)) = from_idx i (length names)" for i
    by (rule firsts_distinct) (rule distinct_from_idx)
  then show ?thesis
    by (simp add: fresh_def d_list_def assms phs_Join_placeholders) (simp add: firsts_def)
qed

lemma fresh_const: "phs c = [] \<Longrightarrow> fresh (d_const g c)"
  by (simp add: fresh_def d_const_def firsts_def)

lemmas fmt_defs = distance_fmt_def cutoff_fmt_def radius_fmt_def city_fmt_def name_fmt_def
  area_fmt_def cuisine_fmt_def cuisines_fmt_def cuisine_ids_fmt_def meal_type_fmt_def
  meal_types_fmt_def meal_type_ids_fmt_def min_cost_fmt_def max_cost_fmt_def rating_fmt_def
  discount_fmt_def free_cond_def duplicate_cond_def

lemma fresh_rest: "\<forall>d \<in> set (filters_rest p). fresh d"
  by (simp add: filters_rest_def fresh_simple fresh_list fresh_const fmt_defs firsts_def)

lemma build_parts:
  "fst (build p) = distanceExpr_of p"
  "conditions (snd (build p)) = loc_conds p @ fst (cr_out p) @ fst (rest_out p)"
  "args (snd (build p)) = loc_args p @ snd (cr_out p) @ snd (rest_out p)"
  "idx (snd (build p)) = int (length (args (snd (build p)))) + 1"
  by (simp_all add: build_eq cr_out_def rest_out_def rest_from_def)

lemma rest_firsts:
  "firsts (cphs (fst (rest_out p))) = from_idx (rest_from p) (length (snd (rest_out p)))"
  unfolding rest_out_def by (rule run_out_firsts) (rule fresh_rest)

lemma rest_set:
  "set (cphs (fst (rest_out p))) = {rest_from p ..< rest_from p + int (length (snd (rest_out p)))}"
  by (metis rest_firsts set_firsts set_from_idx)

lemma fetch_firsts:
  "firsts (phs (distanceExpr_of p) @ cphs (conditions (snd (build p)))) =
     from_idx 1 (length (args (snd (build p))))"
proof -
  let ?m = "length (snd (rest_out p))"
  have r: "firsts (cphs (fst (rest_out p))) = from_idx (rest_from p) ?m" by (rule rest_firsts)
  have f3: "from_idx 1 (Suc (Suc (Suc n))) = [1, 2, 3] @ from_idx 4 n" for n
    by (simp add: from_idx_Suc)
  have f2: "from_idx 1 (Suc (Suc n)) = [1, 2] @ from_idx 3 n" for n
    by (simp add: from_idx_Suc)
  have f1: "from_idx 1 (Suc n) = [1] @ from_idx 2 n" for n
    by (simp add: from_idx_Suc)
  show ?thesis
  proof (cases "HasLocation p")
    case True
    then have rf: "rest_from p = 4"
      by (simp add: rest_from_def loc_args_def d_city_or_radius_def)
    have "firsts ((phs (distanceExpr_of p) @ cphs (loc_conds p) @ cphs (fst (cr_out p))) @
        cphs (fst (rest_out p))) = [1, 2, 3] @ from_idx 4 ?m"
      unfolding firsts_append [of _ "cphs (fst (rest_out p))"] r rf
      using True
      by (simp add: distanceExpr_of_def loc_conds_def cr_out_def d_city_or_radius_def loc_args_def
          fmt_defs filter_id_conv set_from_idx) (simp add: firsts_def)
    then show ?thesis
      using True by (simp add: build_parts cr_out_def d_city_or_radius_def loc_args_def f3)
  next
    case False
    show ?thesis
    proof (cases "City p = []")
      case True
      with False have rf: "rest_from p = 1"
        by (simp add: rest_from_def loc_args_def d_city_or_radius_def)
      show ?thesis
        using False True r rf
        by (simp add: build_parts cr_out_def d_city_or_radius_def loc_args_def loc_conds_def
            distanceExpr_of_def)
    next
      case c: False
      with False have rf: "rest_from p = 2"
        by (simp add: rest_from_def loc_args_def d_city_or_radius_def)
      have "firsts ([1] @ cphs (fst (rest_out p))) = [1] @ from_idx 2 ?m"
        unfolding firsts_append [of _ "cphs (fst (rest_out p))"] r rf
        by (simp add: filter_id_conv set_from_idx) (simp add: firsts_def)
      then show ?thesis
        using False c
        by (simp add: build_parts cr_out_def d_city_or_radius_def loc_args_def loc_conds_def
            distanceExpr_of_def fmt_defs f1)
    qed
  qed
qed

lemma lookup_mid:
  "k < length as \<Longrightarrow> lookup (pre @ as @ post) (int (length pre) + 1 + int k) = Some (as ! k)"
  by (simp add: lookup_def nth_append nat_add_distrib)

lemma lookup_mid1: "lookup (pre @ v # post) (int (length pre) + 1) = Some v"
  using lookup_mid [of 0 "[v]" pre post] by simp

lemma bind_append [simp]: "bind as (a @ b) = bind as a @ bind as b"
  by (simp add: bind_def)

lemma bind_Nil [simp]: "bind as [] = []"
  by (simp add: bind_def)

lemma bind_Join: "bind as (Join xs sep) = Join (map (bind as) xs) (bind as sep)"
  by (induction xs sep rule: Join.induct) simp_all

lemma run_out_bind:
  "list_all2 stable ds Vs \<Longrightarrow> int (length pre) + 1 = i \<Longrightarrow>
   map (bind (pre @ snd (run_out ds i) @ post)) (fst (run_out ds i)) = concat Vs"
proof (induction ds Vs arbitrary: pre i post rule: list_all2_induct)
  case Nil
  then show ?case by simp
next
  case (Cons d ds V Vs)
  let ?as = "snd (d i)"
  let ?R = "run_out ds (i + int (length ?as))"
  have a: "map (bind (pre @ ?as @ (snd ?R @ post))) (fst (d i)) = V"
    using Cons.hyps(1) Cons.prems unfolding stable_def by blast
  have b: "map (bind ((pre @ ?as) @ snd ?R @ post)) (fst ?R) = concat Vs"
    using Cons.IH [of "pre @ ?as" "i + int (length ?as)" post] Cons.prems by simp
  show ?case using a b by simp
qed

lemma stable_simple:
  assumes "\<And>as i. bind as (fmt i) = vfmt (lookup as i)"
  shows "stable (d_simple g fmt v) (if g then [vfmt (Some v)] else [])"
  unfolding stable_def d_simple_def using assms lookup_mid1 by simp

lemma stable_const:
  assumes "\<And>as. bind as c = vc"
  shows "stable (d_const g c) (if g then [vc] else [])"
  unfolding stable_def d_const_def using assms by simp

lemma bind_placeholders:
  "map (bind (pre @ map g names @ post)) (map (\<lambda>k. [Ph (int (length pre) + 1 + int k)]) [0..<length names])
   = map (\<lambda>s. [Ph (Some (g s))]) names"
proof -
  have "map (\<lambda>k. [Ph (lookup (pre @ map g names @ post) (int (length pre) + 1 + int k))]) [0..<length names]
      = map (\<lambda>k. [Ph (Some (map g names ! k))]) [0..<length names]"
    by (rule map_cong) (simp_all add: lookup_mid del: nth_map)
  also have "\<dots> = map (\<lambda>k. [Ph (Some (g (names ! k)))]) [0..<length names]"
    by (rule map_cong) simp_all
  also have "\<dots> = map (\<lambda>s. [Ph (Some (g s))]) (map (\<lambda>k. names ! k) [0..<length names])"
    by (simp add: o_def)
  also have "\<dots> = map (\<lambda>s. [Ph (Some (g s))]) names"
    by (simp add: map_nth)
  finally show ?thesis by (simp add: bind_def o_def)
qed

lemma stable_list:
  assumes "\<And>as l. bind as (fmt l) = vfmt (bind as l)"
  shows "stable (d_list g fmt f names)
     (if g then [vfmt (Join (map (\<lambda>s. [Ph (Some (ArgString (f s)))]) names) [Lit '',''])] else [])"
  unfolding stable_def d_list_def
  using assms bind_placeholders [where g = "\<lambda>s. ArgString (f s)"]
  by (simp add: bind_Join) (simp add: bind_def)

lemma stable_rest: "list_all2 stable (filters_rest p) (intended_rest p)"
  unfolding filters_rest_def intended_rest_def in_list_def list_all2_Cons list.rel_inject
  by (intro conjI TrueI
      stable_simple [where vfmt = "\<lambda>x. name_fmt x x"]
      stable_simple [where vfmt = area_fmt] stable_simple [where vfmt = cuisine_fmt]
      stable_simple [where vfmt = meal_type_fmt] stable_simple [where vfmt = min_cost_fmt]
      stable_simple [where vfmt = max_cost_fmt] stable_simple [where vfmt = rating_fmt]
      stable_simple [where vfmt = discount_fmt]
      stable_list [where vfmt = cuisines_fmt] stable_list [where vfmt = cuisine_ids_fmt]
      stable_list [where vfmt = meal_types_fmt] stable_list [where vfmt = meal_type_ids_fmt]
      stable_const [where vc = free_cond] stable_const [where vc = duplicate_cond])
     (simp_all add: bind_def fmt_defs)

lemma intended_where_parts:
  "intended_where p =
     (if HasLocation p \<and> (Sort p = [] \<or> Sort p = ''discount'')
      then [cutoff_fmt (Some (ArgFloat (Lon p))) (Some (ArgFloat (Lat p)))] else []) @
     (if City p \<noteq> [] then [city_fmt (Some (ArgString (City p)))]
      else if HasLocation p
      then [radius_fmt (Some (ArgFloat (Lon p))) (Some (ArgFloat (Lat p))) (Some (ArgFloat (Radius p)))]
      else []) @
     concat (intended_rest p)"
  by (simp add: intended_where_def intended_rest_def)

lemma rest_from_eq: "rest_from p = int (length (loc_args p @ snd (cr_out p))) + 1"
  by (simp add: rest_from_def cr_out_def)

lemma bind_rest:
  "map (bind (loc_args p @ snd (cr_out p) @ snd (rest_out p))) (fst (rest_out p)) =
     concat (intended_rest p)"
  using run_out_bind [OF stable_rest, of "loc_args p @ snd (cr_out p)" "rest_from p" p "[]"]
  by (simp add: rest_from_eq rest_out_def)

lemma lookup_simps:
  "lookup (a # as) 1 = Some a"
  "lookup (a # b # as) 2 = Some b"
  "lookup (a # b # c # as) 3 = Some c"
  by (simp_all add: lookup_def)

lemma bind_build:
  "map (bind (args (snd (build p)))) (conditions (snd (build p))) = intended_where p"
  "bind (args (snd (build p))) (fst (build p)) = intended_distance p"
proof -
  show "map (bind (args (snd (build p)))) (conditions (snd (build p))) = intended_where p"
    unfolding build_parts intended_where_parts map_append bind_rest
    by (simp add: loc_conds_def loc_args_def cr_out_def d_city_or_radius_def bind_def fmt_defs
        lookup_simps)
  show "bind (args (snd (build p))) (fst (build p)) = intended_distance p"
    unfolding build_parts
    by (simp add: distanceExpr_of_def intended_distance_def loc_args_def bind_def fmt_defs
        lookup_simps)
qed

section \<open>The geographic predicates and the city predicate\<close>

lemma bind_fmt:
  "bind as (cutoff_fmt a b) = cutoff_fmt (lookup as a) (lookup as b)"
  "bind as (radius_fmt a b c) = radius_fmt (lookup as a) (lookup as b) (lookup as c)"
  "bind as (city_fmt a) = city_fmt (lookup as a)"
  by (simp_all add: bind_def fmt_defs)

lemma in_conds_bound:
  "c \<in> set (conditions (snd (build p))) \<Longrightarrow>
   bind (args (snd (build p))) c \<in> set (intended_where p)"
  using bind_build(1) [of p] by (metis imageI list.set_map)

lemma cutoff_intended:
  "cutoff_fmt x y \<in> set (intended_where p) \<longleftrightarrow>
     HasLocation p \<and> (Sort p = [] \<or> Sort p = ''discount'') \<and>
     x = Some (ArgFloat (Lon p)) \<and> y = Some (ArgFloat (Lat p))"
  by (auto simp: intended_where_def fmt_defs)

lemma radius_intended:
  "radius_fmt x y z \<in> set (intended_where p) \<longleftrightarrow>
     City p = [] \<and> HasLocation p \<and> x = Some (ArgFloat (Lon p)) \<and> y = Some (ArgFloat (Lat p)) \<and>
     z = Some (ArgFloat (Radius p))"
  by (auto simp: intended_where_def fmt_defs)

lemma city_intended:
  "city_fmt x \<in> set (intended_where p) \<longleftrightarrow> City p \<noteq> [] \<and> x = Some (ArgString (City p))"
  by (auto simp: intended_where_def fmt_defs)

lemma geo_lookup:
  "HasLocation p \<Longrightarrow> lookup (args (snd (build p))) 1 = Some (ArgFloat (Lon p))"
  "HasLocation p \<Longrightarrow> lookup (args (snd (build p))) 2 = Some (ArgFloat (Lat p))"
  by (simp_all add: build_parts loc_args_def lookup_simps)

lemma cutoff_present:
  "HasLocation p \<Longrightarrow> Sort p = [] \<or> Sort p = ''discount'' \<Longrightarrow>
   cutoff_fmt 1 2 \<in> set (conditions (snd (build p)))"
  by (auto simp add: build_parts loc_conds_def)

lemma cutoff_absent:
  assumes "\<not> (HasLocation p \<and> (Sort p = [] \<or> Sort p = ''discount''))"
  shows "cutoff_fmt a b \<notin> set (conditions (snd (build p)))"
proof
  assume "cutoff_fmt a b \<in> set (conditions (snd (build p)))"
  from in_conds_bound [OF this] show False
    using assms by (simp add: bind_fmt cutoff_intended)
qed

text \<open>
  A request with a geographic point and \<open>sort=popularity\<close>: the handler orders it by falling
  discount, and the WHERE clause has the radius predicate and no 100 km cutoff.
\<close>

theorem cutoff_other_sort_counterexample:
  "HasLocation p_popular \<and>
   Sort p_popular \<noteq> ''rating_desc'' \<and> Sort p_popular \<noteq> ''cost_asc'' \<and>
   orderBy_of (Sort p_popular) = ''ORDER BY effective_discount DESC, id ASC'' \<and>
   conditions (snd (build p_popular)) = [radius_fmt 1 2 3, duplicate_cond] \<and>
   (\<forall>a b. cutoff_fmt a b \<notin> set (conditions (snd (build p_popular))))"
proof -
  have c: "conditions (snd (build p_popular)) = [radius_fmt 1 2 3, duplicate_cond]"
    by (simp add: step_defs p_popular_def zeroParams_def Let_def)
  have "\<forall>a b. cutoff_fmt a b \<notin> set (conditions (snd (build p_popular)))"
    unfolding c by (simp add: fmt_defs)
  then show ?thesis
    using c by (simp add: p_popular_def zeroParams_def orderBy_of_def)
qed

text \<open>
  C4, as the code has it: with a geographic point and a sort value that is empty or
  \<open>discount\<close>, the conditions of the WHERE clause contain the 100000-metre cutoff on the point
  of the request, whatever the radius; with any other sort value, or without a point, they do
  not contain it.
\<close>

theorem cutoff_iff_best_deals:
  "(HasLocation p \<and> (Sort p = [] \<or> Sort p = ''discount'') \<longrightarrow>
      cutoff_fmt 1 2 \<in> set (conditions (snd (build p))) \<and>
      lookup (args (snd (build p))) 1 = Some (ArgFloat (Lon p)) \<and>
      lookup (args (snd (build p))) 2 = Some (ArgFloat (Lat p))) \<and>
   (\<not> (HasLocation p \<and> (Sort p = [] \<or> Sort p = ''discount'')) \<longrightarrow>
      (\<forall>a b. cutoff_fmt a b \<notin> set (conditions (snd (build p))))) \<and>
   (\<exists>cs. fst (templates p) = countQuery (whereStr cs) \<and>
         fst (snd (templates p)) = resultQuery (fst (build p)) (whereStr cs) \<and>
         cs = conditions (snd (build p)))"
  using cutoff_present [of p] cutoff_absent [of p] geo_lookup [of p]
  by (auto simp: templates_def Let_def split: prod.splits)

theorem cutoff_iff_best_deals_witness:
  "cutoff_fmt 1 2 \<in> set (conditions (snd (build p_deals))) \<and>
   lookup (args (snd (build p_deals))) 1 = Some (ArgFloat (Finite 73.8)) \<and>
   lookup (args (snd (build p_deals))) 2 = Some (ArgFloat (Finite 18.5)) \<and>
   Radius p_deals = Finite 250000 \<and>
   cutoff_fmt 1 2 \<notin> set (conditions (snd (build p_city)))"
proof -
  have a: "HasLocation p_deals \<and> (Sort p_deals = [] \<or> Sort p_deals = ''discount'')"
    by (simp add: p_deals_def zeroParams_def)
  have b: "\<not> (HasLocation p_city \<and> (Sort p_city = [] \<or> Sort p_city = ''discount''))"
    by (simp add: p_city_def zeroParams_def)
  have v: "Lon p_deals = Finite 73.8" "Lat p_deals = Finite 18.5" "Radius p_deals = Finite 250000"
    by (simp_all add: p_deals_def zeroParams_def)
  show ?thesis
    using cutoff_iff_best_deals [of p_deals] cutoff_iff_best_deals [of p_city] a b v by metis
qed


lemma city_present:
  "City p \<noteq> [] \<Longrightarrow>
   city_fmt (if HasLocation p then 3 else 1) \<in> set (conditions (snd (build p))) \<and>
   lookup (args (snd (build p))) (if HasLocation p then 3 else 1) = Some (ArgString (City p))"
  by (simp add: build_parts cr_out_def d_city_or_radius_def loc_args_def lookup_simps)

lemma radius_present:
  "City p = [] \<Longrightarrow> HasLocation p \<Longrightarrow>
   radius_fmt 1 2 3 \<in> set (conditions (snd (build p))) \<and>
   lookup (args (snd (build p))) 3 = Some (ArgFloat (Radius p))"
  by (simp add: build_parts cr_out_def d_city_or_radius_def loc_args_def lookup_simps)

lemma radius_absent:
  assumes "City p \<noteq> [] \<or> \<not> HasLocation p"
  shows "radius_fmt a b c \<notin> set (conditions (snd (build p)))"
proof
  assume "radius_fmt a b c \<in> set (conditions (snd (build p)))"
  from in_conds_bound [OF this] show False
    using assms by (auto simp add: bind_fmt radius_intended)
qed

lemma city_absent:
  assumes "City p = []"
  shows "city_fmt k \<notin> set (conditions (snd (build p)))"
proof
  assume "city_fmt k \<in> set (conditions (snd (build p)))"
  from in_conds_bound [OF this] show False
    using assms by (simp add: bind_fmt city_intended)
qed

text \<open>
  C3: with a city, the conditions contain the \<open>ILIKE\<close> predicate on the city, bound to the
  city, and no radius predicate; with a geographic point and no city, they contain the radius
  predicate, bound to the point and to the radius of the request, and no city predicate; no
  query has both.
\<close>

theorem city_or_radius:
  "(City p \<noteq> [] \<longrightarrow>
      city_fmt (if HasLocation p then 3 else 1) \<in> set (conditions (snd (build p))) \<and>
      lookup (args (snd (build p))) (if HasLocation p then 3 else 1) = Some (ArgString (City p)) \<and>
      (\<forall>a b c. radius_fmt a b c \<notin> set (conditions (snd (build p))))) \<and>
   (City p = [] \<and> HasLocation p \<longrightarrow>
      radius_fmt 1 2 3 \<in> set (conditions (snd (build p))) \<and>
      lookup (args (snd (build p))) 1 = Some (ArgFloat (Lon p)) \<and>
      lookup (args (snd (build p))) 2 = Some (ArgFloat (Lat p)) \<and>
      lookup (args (snd (build p))) 3 = Some (ArgFloat (Radius p)) \<and>
      (\<forall>k. city_fmt k \<notin> set (conditions (snd (build p))))) \<and>
   (\<forall>k a b c. \<not> (city_fmt k \<in> set (conditions (snd (build p))) \<and>
                 radius_fmt a b c \<in> set (conditions (snd (build p))))) \<and>
   (\<exists>cs. fst (templates p) = countQuery (whereStr cs) \<and>
         fst (snd (templates p)) = resultQuery (fst (build p)) (whereStr cs) \<and>
         snd (snd (templates p)) = args (snd (build p)) \<and>
         cs = conditions (snd (build p)))"
proof -
  have excl: "\<not> (city_fmt k \<in> set (conditions (snd (build p))) \<and>
                 radius_fmt a b c \<in> set (conditions (snd (build p))))" for k a b c
    using city_absent [of p k] radius_absent [of p a b c] by blast
  have t: "\<exists>cs. fst (templates p) = countQuery (whereStr cs) \<and>
         fst (snd (templates p)) = resultQuery (fst (build p)) (whereStr cs) \<and>
         snd (snd (templates p)) = args (snd (build p)) \<and>
         cs = conditions (snd (build p))"
    by (simp add: templates_def Let_def split: prod.splits)
  show ?thesis
    using city_present [of p] radius_present [of p] radius_absent [of p] city_absent [of p]
      geo_lookup [of p] excl t
    by (intro conjI impI allI) blast+
qed

theorem city_or_radius_witness:
  "city_fmt 3 \<in> set (conditions (snd (build p_city))) \<and>
   lookup (args (snd (build p_city))) 3 = Some (ArgString ''Pune'') \<and>
   radius_fmt 1 2 3 \<notin> set (conditions (snd (build p_city))) \<and>
   radius_fmt 1 2 3 \<in> set (conditions (snd (build p_popular))) \<and>
   lookup (args (snd (build p_popular))) 3 = Some (ArgFloat (Finite 50000)) \<and>
   city_fmt 3 \<notin> set (conditions (snd (build p_popular)))"
proof -
  have a: "City p_city \<noteq> []" "HasLocation p_city" "City p_city = ''Pune''"
    by (simp_all add: p_city_def zeroParams_def)
  have b: "City p_popular = [] \<and> HasLocation p_popular" "Radius p_popular = Finite 50000"
    by (simp_all add: p_popular_def zeroParams_def)
  have 1: "city_fmt 3 \<in> set (conditions (snd (build p_city))) \<and>
      lookup (args (snd (build p_city))) 3 = Some (ArgString ''Pune'') \<and>
      radius_fmt 1 2 3 \<notin> set (conditions (snd (build p_city)))"
    using city_or_radius [of p_city] a by simp
  have 2: "radius_fmt 1 2 3 \<in> set (conditions (snd (build p_popular))) \<and>
      lookup (args (snd (build p_popular))) 3 = Some (ArgFloat (Finite 50000)) \<and>
      city_fmt 3 \<notin> set (conditions (snd (build p_popular)))"
    using city_or_radius [of p_popular] b by simp
  show ?thesis using 1 2 by simp
qed

section \<open>Comma-separated list filters\<close>

lemma run_out_member:
  "d \<in> set ds \<Longrightarrow>
   \<exists>pre post. snd (run_out ds i) = pre @ snd (d (i + int (length pre))) @ post \<and>
              set (fst (d (i + int (length pre)))) \<subseteq> set (fst (run_out ds i))"
proof (induction ds arbitrary: i)
  case Nil
  then show ?case by simp
next
  case (Cons e ds)
  show ?case
  proof (cases "d = e")
    case True
    have "snd (run_out (e # ds) i) = [] @ snd (d (i + int (length ([] :: arg list)))) @
        snd (run_out ds (i + int (length (snd (e i))))) \<and>
        set (fst (d (i + int (length ([] :: arg list))))) \<subseteq> set (fst (run_out (e # ds) i))"
      using True by simp
    then show ?thesis by blast
  next
    case False
    then have "d \<in> set ds" using Cons.prems by simp
    from Cons.IH [OF this, of "i + int (length (snd (e i)))"]
    obtain pre post where
      a: "snd (run_out ds (i + int (length (snd (e i))))) =
          pre @ snd (d (i + int (length (snd (e i))) + int (length pre))) @ post"
      and b: "set (fst (d (i + int (length (snd (e i))) + int (length pre)))) \<subseteq>
          set (fst (run_out ds (i + int (length (snd (e i))))))"
      by blast
    have "snd (run_out (e # ds) i) =
        (snd (e i) @ pre) @ snd (d (i + int (length (snd (e i) @ pre)))) @ post \<and>
        set (fst (d (i + int (length (snd (e i) @ pre))))) \<subseteq> set (fst (run_out (e # ds) i))"
      using a b by (auto simp: add.assoc)
    then show ?thesis by blast
  qed
qed

lemma list_step_served:
  assumes "d_list True fmt f (Split s (CHR '','')) \<in> set (filters_rest p)"
    and "\<And>l. phs (fmt l) = phs l"
  shows "list_filter_served p fmt f s"
proof -
  let ?names = "Split s (CHR '','')"
  let ?d = "d_list True fmt f ?names"
  let ?A = "loc_args p @ snd (cr_out p)"
  obtain pre post where
    a: "snd (rest_out p) = pre @ snd (?d (rest_from p + int (length pre))) @ post"
    and b: "set (fst (?d (rest_from p + int (length pre)))) \<subseteq> set (fst (rest_out p))"
    using run_out_member [OF assms(1), of "rest_from p"] unfolding rest_out_def by blast
  let ?k = "rest_from p + int (length pre)"
  have k: "?k = int (length (?A @ pre)) + 1" by (simp add: rest_from_eq)
  have as: "args (snd (build p)) = (?A @ pre) @ map (\<lambda>x. ArgString (f x)) ?names @ post"
    using a by (simp add: build_parts d_list_def)
  have mem: "in_cond fmt ?k (length ?names) \<in> set (conditions (snd (build p)))"
    using b by (simp add: build_parts d_list_def in_cond_def)
  have ph: "phs (in_cond fmt ?k (length ?names)) = from_idx ?k (length ?names)"
    by (simp add: in_cond_def assms(2) phs_Join_placeholders)
  have lk: "lookup (args (snd (build p))) (?k + int j) = Some (ArgString (f (?names ! j)))"
    if "j < length ?names" for j
    unfolding as k using lookup_mid [of j "map (\<lambda>x. ArgString (f x)) ?names" "?A @ pre" post] that
    by simp
  show ?thesis
    unfolding list_filter_served_def using mem ph lk by blast
qed

lemma length_Split: "length (Split s sep) = Suc (length (filter (\<lambda>c. c = sep) s))"
  by (induction s) (auto split: list.splits)

lemma trim_front_Nil: "trim_front es [] = []"
proof -
  have "filter (starts_with []) es = []" by (auto simp: filter_empty_conv starts_with_def)
  then show ?thesis by (subst trim_front.simps) simp
qed

lemma TrimSpace_Nil: "TrimSpace [] = []"
  by (simp add: TrimSpace_def trim_front_Nil)

text \<open>
  C10: each of the four list filters that is present has its \<open>IN\<close> predicate among the
  conditions, with one placeholder per comma-separated segment, numbered consecutively, the
  placeholder of a segment standing for that segment (trimmed, for the two lists of names).
  The segments are as many as the commas and one more, so an empty segment keeps its
  placeholder; it stands for the empty string.
\<close>

theorem empty_segments_kept:
  "(Cuisines p \<noteq> [] \<longrightarrow> list_filter_served p cuisines_fmt TrimSpace (Cuisines p)) \<and>
   (CuisineIds p \<noteq> [] \<longrightarrow> list_filter_served p cuisine_ids_fmt (\<lambda>id. id) (CuisineIds p)) \<and>
   (MealTypes p \<noteq> [] \<longrightarrow> list_filter_served p meal_types_fmt TrimSpace (MealTypes p)) \<and>
   (MealTypeIds p \<noteq> [] \<longrightarrow> list_filter_served p meal_type_ids_fmt (\<lambda>id. id) (MealTypeIds p)) \<and>
   length (Split s (CHR '','')) = Suc (length (filter (\<lambda>c. c = CHR '','') s)) \<and>
   Split ''Italian,'' (CHR '','') = [''Italian'', []] \<and>
   TrimSpace [] = []"
proof -
  have 1: "list_filter_served p cuisines_fmt TrimSpace (Cuisines p)" if "Cuisines p \<noteq> []"
    by (rule list_step_served) (simp_all add: filters_rest_def that fmt_defs)
  have 2: "list_filter_served p cuisine_ids_fmt (\<lambda>id. id) (CuisineIds p)" if "CuisineIds p \<noteq> []"
    by (rule list_step_served) (simp_all add: filters_rest_def that fmt_defs)
  have 3: "list_filter_served p meal_types_fmt TrimSpace (MealTypes p)" if "MealTypes p \<noteq> []"
    by (rule list_step_served) (simp_all add: filters_rest_def that fmt_defs)
  have 4: "list_filter_served p meal_type_ids_fmt (\<lambda>id. id) (MealTypeIds p)" if "MealTypeIds p \<noteq> []"
    by (rule list_step_served) (simp_all add: filters_rest_def that fmt_defs)
  have 5: "Split ''Italian,'' (CHR '','') = [''Italian'', []]" by simp
  show ?thesis using 1 2 3 4 5 length_Split TrimSpace_Nil by blast
qed


text \<open>The list \<open>Italian,\<close> has two segments: two placeholders, the second for the empty string.\<close>

theorem empty_segments_kept_witness:
  "(\<exists>k. in_cond cuisines_fmt k 2 \<in> set (conditions (snd (build p_italian))) \<and>
        phs (in_cond cuisines_fmt k 2) = from_idx k 2 \<and>
        lookup (args (snd (build p_italian))) k = Some (ArgString ''Italian'') \<and>
        lookup (args (snd (build p_italian))) (k + 1) = Some (ArgString [])) \<and>
   args (snd (build p_italian)) = [ArgString ''Italian'', ArgString []]"
proof -
  have c: "Cuisines p_italian = ''Italian,''" "Cuisines p_italian \<noteq> []"
    by (simp_all add: p_italian_def zeroParams_def)
  have s: "Split ''Italian,'' (CHR '','') = [''Italian'', []]" by simp
  have t: "TrimSpace ''Italian'' = ''Italian''" "TrimSpace [] = []"
    by (simp_all add: TrimSpace_def trim_front.simps space_runes_def starts_with_def trim_front_Nil)
  have "list_filter_served p_italian cuisines_fmt TrimSpace ''Italian,''"
    using empty_segments_kept [of p_italian] c by simp
  then obtain k where k: "in_cond cuisines_fmt k (Suc (Suc 0)) \<in> set (conditions (snd (build p_italian)))"
      "phs (in_cond cuisines_fmt k (Suc (Suc 0))) = from_idx k (Suc (Suc 0))"
      "\<forall>j < Suc (Suc 0). lookup (args (snd (build p_italian))) (k + int j) =
          Some (ArgString (TrimSpace ([''Italian'', []] ! j)))"
    unfolding list_filter_served_def s by auto
  have l0: "lookup (args (snd (build p_italian))) k = Some (ArgString ''Italian'')"
    using k(3) [rule_format, of 0] t by simp
  have l1: "lookup (args (snd (build p_italian))) (k + 1) = Some (ArgString [])"
    using k(3) [rule_format, of 1] t by simp
  have a: "args (snd (build p_italian)) = [ArgString ''Italian'', ArgString []]"
    by (simp add: step_defs p_italian_def zeroParams_def Let_def t)
  have "in_cond cuisines_fmt k 2 \<in> set (conditions (snd (build p_italian))) \<and>
        phs (in_cond cuisines_fmt k 2) = from_idx k 2 \<and>
        lookup (args (snd (build p_italian))) k = Some (ArgString ''Italian'') \<and>
        lookup (args (snd (build p_italian))) (k + 1) = Some (ArgString [])"
    using k(1,2) l0 l1 by (simp add: numeral_2_eq_2)
  then show ?thesis using a by blast
qed

section \<open>Coordinates that do not parse\<close>

lemma parse_location:
  assumes "Get query ''lat'' \<noteq> []" and "Get query ''lon'' \<noteq> []"
  shows "HasLocation (ParseSearchParams sc query)"
    and "Lat (ParseSearchParams sc query) = fst (ParseFloat sc (Get query ''lat''))"
    and "Lon (ParseSearchParams sc query) = fst (ParseFloat sc (Get query ''lon''))"
  using assms by (simp_all add: ParseSearchParams_def Let_def)

lemma handler_first_effect:
  "\<exists>es. snd (SearchHandler sc db query) =
     DbQueryRow (fst (BuildSearchQueries (ParseSearchParams sc query)))
       (snd (snd (BuildSearchQueries (ParseSearchParams sc query)))) # es"
  by (auto simp: SearchHandler_def Let_def split: prod.splits sum.splits)

lemma geo_conds_bound:
  assumes "HasLocation p"
  shows "cutoff_fmt a b \<in> set (conditions (snd (build p))) \<Longrightarrow>
           lookup (args (snd (build p))) a = Some (ArgFloat (Lon p)) \<and>
           lookup (args (snd (build p))) b = Some (ArgFloat (Lat p))"
    and "radius_fmt a b c \<in> set (conditions (snd (build p))) \<Longrightarrow>
           lookup (args (snd (build p))) a = Some (ArgFloat (Lon p)) \<and>
           lookup (args (snd (build p))) b = Some (ArgFloat (Lat p))"
  using in_conds_bound [of "cutoff_fmt a b" p] in_conds_bound [of "radius_fmt a b c" p]
  by (simp_all add: bind_fmt cutoff_intended radius_intended)

text \<open>
  The request \<open>lat=1e999&lon=18.5\<close>: the latitude does not parse, the error is dropped, and
  the geographic point has the latitude \<open>+Inf\<close>, not 0; that is the value bound to the second
  placeholder.
\<close>

theorem coordinate_out_of_range_counterexample:
  "Get q_range_lat ''lat'' \<noteq> [] \<and> Get q_range_lat ''lon'' \<noteq> [] \<and>
   snd (ParseFloat sc_range (Get q_range_lat ''lat'')) \<and>
   HasLocation (ParseSearchParams sc_range q_range_lat) \<and>
   Lat (ParseSearchParams sc_range q_range_lat) = PosInf \<and>
   Lat (ParseSearchParams sc_range q_range_lat) \<noteq> Finite 0 \<and>
   lookup (args (snd (build (ParseSearchParams sc_range q_range_lat)))) 2 = Some (ArgFloat PosInf)"
proof -
  have g: "Get q_range_lat ''lat'' = ''1e999''" "Get q_range_lat ''lon'' = ''18.5''"
    by (simp_all add: q_range_lat_def Get_def)
  have ne: "Get q_range_lat ''lat'' \<noteq> []" "Get q_range_lat ''lon'' \<noteq> []"
    unfolding g by simp_all
  have f: "ParseFloat sc_range ''1e999'' = (PosInf, True)"
    by (simp add: sc_range_def)
  have h: "HasLocation (ParseSearchParams sc_range q_range_lat)"
    and la: "Lat (ParseSearchParams sc_range q_range_lat) = PosInf"
    using parse_location [OF ne, of sc_range] f unfolding g by simp_all
  show ?thesis
    using ne h la geo_lookup [OF h] f unfolding g by simp
qed

text \<open>
  C9, as the code has it: when \<open>lat\<close> and \<open>lon\<close> are both non-empty, the filter set has its
  geographic point, whatever \<open>strconv.ParseFloat\<close> makes of the two strings and whether or not
  it reports an error: each coordinate is the value that came with the dropped error (for
  Go's \<open>ParseFloat\<close> that is 0 after a syntax error and an infinity after a range error). The
  distance expression and the geographic predicates are bound to that point, and the handler
  goes on to the count query.
\<close>

theorem geo_mode_with_unparsable_coordinate:
  assumes "Get query ''lat'' \<noteq> []" and "Get query ''lon'' \<noteq> []"
    and "p = ParseSearchParams sc query"
  shows "HasLocation p \<and>
         Lat p = fst (ParseFloat sc (Get query ''lat'')) \<and>
         Lon p = fst (ParseFloat sc (Get query ''lon'')) \<and>
         fst (build p) = distance_fmt 1 2 \<and>
         lookup (args (snd (build p))) 1 = Some (ArgFloat (Lon p)) \<and>
         lookup (args (snd (build p))) 2 = Some (ArgFloat (Lat p)) \<and>
         (\<forall>a b. cutoff_fmt a b \<in> set (conditions (snd (build p))) \<longrightarrow>
            lookup (args (snd (build p))) a = Some (ArgFloat (Lon p)) \<and>
            lookup (args (snd (build p))) b = Some (ArgFloat (Lat p))) \<and>
         (\<forall>a b c. radius_fmt a b c \<in> set (conditions (snd (build p))) \<longrightarrow>
            lookup (args (snd (build p))) a = Some (ArgFloat (Lon p)) \<and>
            lookup (args (snd (build p))) b = Some (ArgFloat (Lat p))) \<and>
         (\<exists>es. snd (SearchHandler sc db query) =
            DbQueryRow (fst (BuildSearchQueries p)) (snd (snd (BuildSearchQueries p))) # es)"
proof -
  have h: "HasLocation p" and la: "Lat p = fst (ParseFloat sc (Get query ''lat''))"
    and lo: "Lon p = fst (ParseFloat sc (Get query ''lon''))"
    using parse_location [OF assms(1,2)] assms(3) by simp_all
  have d: "fst (build p) = distance_fmt 1 2"
    using h by (simp add: build_parts distanceExpr_of_def)
  have e: "\<exists>es. snd (SearchHandler sc db query) =
            DbQueryRow (fst (BuildSearchQueries p)) (snd (snd (BuildSearchQueries p))) # es"
    unfolding assms(3) by (rule handler_first_effect)
  show ?thesis
    using h la lo d e geo_lookup [OF h] geo_conds_bound [OF h]
    by (intro conjI impI allI) simp_all
qed

text \<open>The request \<open>lat=abc&lon=18.5\<close>: a syntax error, and the latitude 0.\<close>

theorem geo_mode_with_unparsable_coordinate_witness:
  "ParseFloat sc0 (Get q_bad_lat ''lat'') = (Finite 0, True) \<and>
   HasLocation (ParseSearchParams sc0 q_bad_lat) \<and>
   Lat (ParseSearchParams sc0 q_bad_lat) = Finite 0 \<and>
   Lon (ParseSearchParams sc0 q_bad_lat) = Finite 18.5 \<and>
   lookup (args (snd (build (ParseSearchParams sc0 q_bad_lat)))) 2 = Some (ArgFloat (Finite 0))"
proof -
  have g: "Get q_bad_lat ''lat'' = ''abc''" "Get q_bad_lat ''lon'' = ''18.5''"
    by (simp_all add: q_bad_lat_def Get_def)
  have ne: "Get q_bad_lat ''lat'' \<noteq> []" "Get q_bad_lat ''lon'' \<noteq> []"
    unfolding g by simp_all
  have f: "ParseFloat sc0 ''abc'' = (Finite 0, True)" "ParseFloat sc0 ''18.5'' = (Finite 18.5, False)"
    by (simp_all add: sc0_def)
  show ?thesis
    using geo_mode_with_unparsable_coordinate [OF ne refl, of sc0 db_down] f
    unfolding g by simp
qed

section \<open>The placeholders of the rendered templates\<close>

lemma digit_cases: "d < 10 \<Longrightarrow> d \<in> {0, 1, 2, 3, 4, 5, 6, 7, 8, 9 :: nat}"
  by auto

lemma digit_char_props: "d < 10 \<Longrightarrow> is_digit (digit_char d) \<and> digit_value (digit_char d) = d"
  using digit_cases [of d] by (auto simp: is_digit_def digit_char_def digit_value_def)

lemma digits_of_digits: "\<forall>c \<in> set (digits_of n). is_digit c"
proof (induction n rule: digits_of.induct)
  case (1 n)
  show ?case
  proof (cases "n < 10")
    case True
    then show ?thesis by (subst digits_of.simps) (simp add: digit_char_props)
  next
    case False
    then show ?thesis using 1 by (subst digits_of.simps) (simp add: digit_char_props)
  qed
qed

lemma digits_of_nonempty: "digits_of n \<noteq> []"
  by (subst digits_of.simps) simp

lemma digits_value_snoc: "digits_value (ds @ [c]) = 10 * digits_value ds + digit_value c"
  by (simp add: digits_value_def)

lemma digits_value_digits_of: "digits_value (digits_of n) = n"
proof (induction n rule: digits_of.induct)
  case (1 n)
  show ?case
  proof (cases "n < 10")
    case True
    then show ?thesis
      by (subst digits_of.simps) (simp add: digits_value_def digit_char_props)
  next
    case False
    then show ?thesis
      using 1 by (subst digits_of.simps) (simp add: digits_value_snoc digit_char_props)
  qed
qed

lemma scan_lit: "CHR ''$'' \<notin> set s \<Longrightarrow> placeholders_of (s @ r) = placeholders_of r"
  by (induction s) (auto simp add: placeholders_of.simps(2))

lemma scan_ph:
  assumes "0 \<le> i" and "r = [] \<or> \<not> is_digit (hd r)"
  shows "placeholders_of (CHR ''$'' # itoa i @ r) = i # placeholders_of r"
proof -
  let ?ds = "digits_of (nat i)"
  have it: "itoa i = ?ds" using assms(1) by (simp add: itoa_def)
  have r: "takeWhile is_digit r = []" "dropWhile is_digit r = r"
    using assms(2) by (cases r; simp)+
  have tw: "takeWhile is_digit (?ds @ r) = ?ds"
    using digits_of_digits [of "nat i"] r by (simp add: takeWhile_append2)
  have dw: "dropWhile is_digit (?ds @ r) = r"
    using digits_of_digits [of "nat i"] r by (simp add: dropWhile_append2)
  show ?thesis
    using assms(1)
    by (simp add: placeholders_of.simps(2) it tw dw digits_of_nonempty digits_value_digits_of)
qed

lemma render_simps [simp]:
  "render [] = []"
  "render (Lit s # t) = s @ render t"
  "render (Ph i # t) = CHR ''$'' # itoa i @ render t"
  by (simp_all add: render_def)

lemma render_append [simp]: "render (a @ b) = render a @ render b"
  by (simp add: render_def)

lemma starts_ok_render: "starts_ok t \<Longrightarrow> render t = [] \<or> \<not> is_digit (hd (render t))"
  by (cases t rule: starts_ok.cases) (auto simp: is_digit_def split: list.splits)

lemma placeholders_render: "scan_ok t \<Longrightarrow> placeholders_of (render t) = phs t"
proof (induction t rule: scan_ok.induct)
  case 1
  then show ?case by simp
next
  case (2 s t)
  then show ?case by (simp add: scan_lit)
next
  case (3 i t)
  then show ?case using starts_ok_render [of t] by (simp add: scan_ph)
qed

lemma starts_ok_append: "starts_ok a \<Longrightarrow> starts_ok b \<Longrightarrow> starts_ok (a @ b)"
  by (cases a rule: starts_ok.cases) simp_all

lemma scan_ok_append: "scan_ok a \<Longrightarrow> scan_ok b \<Longrightarrow> starts_ok b \<Longrightarrow> scan_ok (a @ b)"
proof (induction a rule: scan_ok.induct)
  case 1
  then show ?case by simp
next
  case (2 s t)
  then show ?case by simp
next
  case (3 i t)
  then show ?case by (simp add: starts_ok_append)
qed


lemma Join_ok:
  assumes "\<forall>c \<in> set cs. cond_ok c" and "cond_ok sep"
  shows "scan_ok (Join cs sep) \<and> starts_ok (Join cs sep)"
  using assms
proof (induction cs sep rule: Join.induct)
  case (1 sep)
  then show ?case by simp
next
  case (2 x sep)
  then show ?case by (simp add: cond_ok_def)
next
  case (3 x y ys sep)
  then have ih: "scan_ok (Join (y # ys) sep)" "starts_ok (Join (y # ys) sep)" by simp_all
  have x: "scan_ok x" "starts_ok x" "x \<noteq> []" and s: "scan_ok sep" "starts_ok sep" "sep \<noteq> []"
    using 3(2,3) by (simp_all add: cond_ok_def)
  have "scan_ok (sep @ Join (y # ys) sep)" using s ih by (simp add: scan_ok_append)
  moreover have "starts_ok (sep @ Join (y # ys) sep)" using s ih by (simp add: starts_ok_append)
  ultimately show ?case using x by (simp add: scan_ok_append starts_ok_append)
qed

lemma run_out_all:
  "(\<And>d j c. d \<in> set ds \<Longrightarrow> i \<le> j \<Longrightarrow> c \<in> set (fst (d j)) \<Longrightarrow> P c) \<Longrightarrow>
   c \<in> set (fst (run_out ds i)) \<Longrightarrow> P c"
proof (induction ds arbitrary: i)
  case Nil
  then show ?case by simp
next
  case (Cons d ds)
  from Cons.prems(2) consider "c \<in> set (fst (d i))"
    | "c \<in> set (fst (run_out ds (i + int (length (snd (d i))))))"
    by auto
  then show ?case
  proof cases
    case 1
    then show ?thesis using Cons.prems(1) [of d i c] by simp
  next
    case 2
    have "P c"
    proof (rule Cons.IH [OF _ 2])
      fix e j c' assume "e \<in> set ds" "i + int (length (snd (d i))) \<le> j" "c' \<in> set (fst (e j))"
      then show "P c'" using Cons.prems(1) [of e j c'] by simp
    qed
    then show ?thesis .
  qed
qed

lemma ok_placeholders:
  assumes "1 \<le> j"
  shows "scan_ok (Join (map (\<lambda>k. [Ph (j + int k)]) [0..<n]) [Lit '','']) \<and>
         starts_ok (Join (map (\<lambda>k. [Ph (j + int k)]) [0..<n]) [Lit '',''])"
  by (rule Join_ok) (use assms in \<open>auto simp: cond_ok_def is_digit_def\<close>)

lemma rest_steps_ok:
  "d \<in> set (filters_rest p) \<Longrightarrow> 1 \<le> j \<Longrightarrow> c \<in> set (fst (d j)) \<Longrightarrow> cond_ok c"
  using ok_placeholders [of j]
  by (auto simp: filters_rest_def d_simple_def d_list_def d_const_def cond_ok_def fmt_defs
      scan_ok_append is_digit_def split: if_splits)

lemma conds_ok:
  assumes "c \<in> set (conditions (snd (build p)))"
  shows "cond_ok c"
proof -
  have 1: "1 \<le> rest_from p" by (simp add: rest_from_def)
  have r: "cond_ok c" if "c \<in> set (fst (rest_out p))"
    using that unfolding rest_out_def
  proof (rule run_out_all [rotated])
    fix d j c' assume "d \<in> set (filters_rest p)" "rest_from p \<le> j" "c' \<in> set (fst (d j))"
    then show "cond_ok c'" using rest_steps_ok [of d p j c'] 1 by simp
  qed
  have l: "cond_ok c" if "c \<in> set (loc_conds p)"
    using that by (auto simp: loc_conds_def cond_ok_def fmt_defs is_digit_def split: if_splits)
  have m: "cond_ok c" if "c \<in> set (fst (cr_out p))"
    using that
    by (auto simp: cr_out_def d_city_or_radius_def loc_args_def cond_ok_def fmt_defs is_digit_def
        split: if_splits)
  show ?thesis using assms l m r by (auto simp: build_parts)
qed

lemma where_ok: "scan_ok (whereStr (conditions (snd (build p))))"
proof -
  have a: "\<forall>c \<in> set (conditions (snd (build p))). cond_ok c" using conds_ok by blast
  have b: "cond_ok [Lit '' AND '']" by (simp add: cond_ok_def is_digit_def)
  show ?thesis using Join_ok [OF a b] by (simp add: whereStr_def)
qed

lemma distance_ok: "scan_ok (fst (build p))"
  by (auto simp: build_parts distanceExpr_of_def fmt_defs is_digit_def)

lemma templates_eq:
  "templates p =
     (countQuery (whereStr (conditions (snd (build p)))),
      resultQuery (fst (build p)) (whereStr (conditions (snd (build p)))),
      args (snd (build p)))"
  by (simp add: templates_def Let_def case_prod_beta)

lemma templates_ok:
  "scan_ok (fst (templates p))" "scan_ok (fst (snd (templates p)))"
proof -
  let ?w = "whereStr (conditions (snd (build p)))"
  have w: "scan_ok ?w" by (rule where_ok)
  have sw: "starts_ok ?w" by (simp add: whereStr_def is_digit_def)
  show "scan_ok (fst (templates p))"
    using w by (simp add: templates_eq countQuery_def)
  have t: "scan_ok (?w @ [Lit [nl, tab]])"
    using w by (simp add: scan_ok_append is_digit_def nl_def tab_def)
  have st: "starts_ok (?w @ [Lit [nl, tab]])" using sw by (simp add: whereStr_def)
  let ?mid = "Lit ('' as distance,'' @ [nl, tab, tab] @
        ''       COALESCE((SELECT json_agg(json_build_object('id', c.id, 'cuisine_name', c.cuisine_name)) FROM restaurant_cuisines rc JOIN cuisines c ON rc.cuisine_id = c.id WHERE rc.restaurant_id = r.id), '[]') as cuisines,'' @
        [nl, tab, tab] @
        ''       COALESCE((SELECT json_agg(json_build_object('id', m.id, 'meal_type', m.meal_type)) FROM restaurant_meal_types rmt JOIN meal_types m ON rmt.meal_type_id = m.id WHERE rmt.restaurant_id = r.id), '[]') as meal_types'' @
        [nl, tab, tab] @ ''FROM restaurants r '')"
  have m: "scan_ok (?mid # ?w @ [Lit [nl, tab]])" "starts_ok (?mid # ?w @ [Lit [nl, tab]])"
    using t by (simp_all add: nl_def tab_def is_digit_def)
  have "scan_ok (fst (build p) @ ?mid # ?w @ [Lit [nl, tab]])"
    using distance_ok [of p] m by (simp add: scan_ok_append)
  then show "scan_ok (fst (snd (templates p)))"
    by (simp add: templates_eq resultQuery_def selectFields_def nl_def tab_def)
qed

lemma strings_placeholders:
  "placeholders_of (fst (BuildSearchQueries p)) = phs (fst (templates p))"
  "placeholders_of (fst (snd (BuildSearchQueries p))) = phs (fst (snd (templates p)))"
  "snd (snd (BuildSearchQueries p)) = snd (snd (templates p))"
  using templates_ok [of p]
  by (simp_all add: BuildSearchQueries_def placeholders_render case_prod_beta)

section \<open>Placeholders and arguments\<close>

lemma phs_where: "phs (whereStr cs) = cphs cs"
  by (simp add: whereStr_def phs_Join_Lit cphs_def)

lemma phs_templates:
  "phs (fst (templates p)) = cphs (conditions (snd (build p)))"
  "phs (fst (snd (templates p))) = phs (fst (build p)) @ cphs (conditions (snd (build p)))"
  by (simp_all add: templates_eq countQuery_def resultQuery_def phs_where)

lemma fetch_set:
  "set (phs (fst (build p)) @ cphs (conditions (snd (build p)))) =
     {1 .. int (length (args (snd (build p))))}"
proof -
  have "set (phs (fst (build p)) @ cphs (conditions (snd (build p)))) =
      set (from_idx 1 (length (args (snd (build p)))))"
    using fetch_firsts [of p] by (metis build_parts(1) set_firsts)
  then show ?thesis by (auto simp: set_from_idx)
qed

lemma count_set:
  "set (cphs (conditions (snd (build p)))) =
     (if HasLocation p \<and> City p \<noteq> [] \<and> Sort p \<noteq> [] \<and> Sort p \<noteq> ''discount''
      then {3 .. int (length (args (snd (build p))))}
      else {1 .. int (length (args (snd (build p))))})"
proof -
  let ?m = "int (length (snd (rest_out p)))"
  let ?pre = "set (cphs (loc_conds p @ fst (cr_out p)))"
  have r: "set (cphs (fst (rest_out p))) = {rest_from p ..< rest_from p + ?m}" by (rule rest_set)
  have s: "set (cphs (conditions (snd (build p)))) = ?pre \<union> {rest_from p ..< rest_from p + ?m}"
    using r by (simp add: build_parts Un_assoc)
  have n: "int (length (args (snd (build p)))) = rest_from p - 1 + ?m"
    by (simp add: build_parts rest_from_def cr_out_def)
  show ?thesis
  proof (cases "HasLocation p")
    case True
    then have rf: "rest_from p = 4"
      by (simp add: rest_from_def loc_args_def d_city_or_radius_def)
    have pre: "?pre = (if City p \<noteq> [] \<and> Sort p \<noteq> [] \<and> Sort p \<noteq> ''discount'' then {3} else {1, 2, 3})"
      using True
      by (auto simp: loc_conds_def loc_args_def cr_out_def d_city_or_radius_def fmt_defs)
    have a: "{3} \<union> {4 ..< 4 + ?m} = {3 .. 3 + ?m}" by auto
    have b: "{1, 2, 3} \<union> {4 ..< 4 + ?m} = {1 .. 3 + ?m}" by auto
    show ?thesis unfolding s n rf pre using True a b by simp
  next
    case False
    then have rf: "rest_from p = (if City p = [] then 1 else 2)"
      by (simp add: rest_from_def loc_args_def d_city_or_radius_def)
    have pre: "?pre = (if City p = [] then {} else {1})"
      using False
      by (auto simp: loc_conds_def loc_args_def cr_out_def d_city_or_radius_def fmt_defs)
    have a: "{1} \<union> {2 ..< 2 + ?m} = {1 .. 1 + ?m}" by auto
    have b: "{1 ..< 1 + ?m} = {1 .. ?m}" by auto
    show ?thesis unfolding s n rf pre using False a b by simp
  qed
qed


text \<open>
  A request with a geographic point, a city and \<open>sort=rating_desc\<close>: three arguments, and
  a count query that names the third only.
\<close>

theorem count_template_counterexample:
  "fst (BuildSearchQueries p_city) =
     ''SELECT COUNT(*) FROM restaurants r WHERE r.city ILIKE $3 AND r.is_duplicate = false'' \<and>
   snd (snd (BuildSearchQueries p_city)) =
     [ArgFloat (Finite 73.8), ArgFloat (Finite 18.5), ArgString ''Pune''] \<and>
   placeholders_of (fst (BuildSearchQueries p_city)) = [3] \<and>
   set (placeholders_of (fst (BuildSearchQueries p_city))) \<noteq>
     {1 .. int (length (snd (snd (BuildSearchQueries p_city))))}"
proof -
  have b: "build p_city =
      (distance_fmt 1 2,
       \<lparr>args = [ArgFloat (Finite 73.8), ArgFloat (Finite 18.5), ArgString ''Pune''],
        conditions = [city_fmt 3, duplicate_cond], idx = 4\<rparr>)"
    by (simp add: step_defs p_city_def zeroParams_def Let_def)
  have q: "fst (BuildSearchQueries p_city) =
     ''SELECT COUNT(*) FROM restaurants r WHERE r.city ILIKE $3 AND r.is_duplicate = false''"
    by (simp add: BuildSearchQueries_def templates_eq b countQuery_def whereStr_def fmt_defs
        render_def itoa_def digits_of.simps digit_char_def)
  have a: "snd (snd (BuildSearchQueries p_city)) =
     [ArgFloat (Finite 73.8), ArgFloat (Finite 18.5), ArgString ''Pune'']"
    by (simp add: strings_placeholders templates_eq b)
  have ph: "placeholders_of (fst (BuildSearchQueries p_city)) = [3]"
    by (simp add: strings_placeholders phs_templates b fmt_defs)
  have ne: "{3 :: int} \<noteq> {1 .. 3}"
  proof
    assume "{3 :: int} = {1 .. 3}"
    then have "(1 :: int) \<in> {3}" by auto
    then show False by simp
  qed
  show ?thesis unfolding ph a using q ne by simp
qed

text \<open>
  C1, as the code has it: the placeholders of the fetch query are exactly the indices from 1 to
  the length of the argument vector, and so are those of the two queries together; those of
  the count query lie in that range, and are exactly that range unless the request has a
  geographic point, a city and a sort value other than the empty one and \<open>discount\<close>. Both
  queries end in the same WHERE clause, and binding the argument vector to the placeholders
  gives the predicates that the filter set asks for, each with its own value.
\<close>

theorem placeholders_and_arguments:
  "set (placeholders_of (fst (snd (BuildSearchQueries p)))) =
     {1 .. int (length (snd (snd (BuildSearchQueries p))))} \<and>
   set (placeholders_of (fst (BuildSearchQueries p))) \<union>
   set (placeholders_of (fst (snd (BuildSearchQueries p)))) =
     {1 .. int (length (snd (snd (BuildSearchQueries p))))} \<and>
   set (placeholders_of (fst (BuildSearchQueries p))) \<subseteq>
     {1 .. int (length (snd (snd (BuildSearchQueries p))))} \<and>
   (\<not> (HasLocation p \<and> City p \<noteq> [] \<and> Sort p \<noteq> [] \<and> Sort p \<noteq> ''discount'') \<longrightarrow>
      set (placeholders_of (fst (BuildSearchQueries p))) =
        {1 .. int (length (snd (snd (BuildSearchQueries p))))}) \<and>
   (\<exists>d cs. fst (BuildSearchQueries p) = render (countQuery (whereStr cs)) \<and>
           fst (snd (BuildSearchQueries p)) = render (resultQuery d (whereStr cs)) \<and>
           placeholders_of (fst (BuildSearchQueries p)) = cphs cs \<and>
           placeholders_of (fst (snd (BuildSearchQueries p))) = phs d @ cphs cs \<and>
           map (bind (snd (snd (BuildSearchQueries p)))) cs = intended_where p \<and>
           bind (snd (snd (BuildSearchQueries p))) d = intended_distance p)"
proof -
  let ?cs = "conditions (snd (build p))"
  let ?d = "fst (build p)"
  let ?as = "snd (snd (BuildSearchQueries p))"
  have as: "?as = args (snd (build p))" by (simp add: strings_placeholders templates_eq)
  have c: "placeholders_of (fst (BuildSearchQueries p)) = cphs ?cs"
    by (simp add: strings_placeholders phs_templates)
  have f: "placeholders_of (fst (snd (BuildSearchQueries p))) = phs ?d @ cphs ?cs"
    by (simp add: strings_placeholders phs_templates)
  have 1: "set (placeholders_of (fst (snd (BuildSearchQueries p)))) = {1 .. int (length ?as)}"
    unfolding f as by (rule fetch_set)
  have 3: "set (placeholders_of (fst (BuildSearchQueries p))) =
     (if HasLocation p \<and> City p \<noteq> [] \<and> Sort p \<noteq> [] \<and> Sort p \<noteq> ''discount''
      then {3 .. int (length ?as)} else {1 .. int (length ?as)})"
    unfolding c as by (rule count_set)
  have 2: "set (placeholders_of (fst (BuildSearchQueries p))) \<union>
      set (placeholders_of (fst (snd (BuildSearchQueries p)))) = {1 .. int (length ?as)}"
    unfolding 1 3 by auto
  have 4: "fst (BuildSearchQueries p) = render (countQuery (whereStr ?cs)) \<and>
           fst (snd (BuildSearchQueries p)) = render (resultQuery ?d (whereStr ?cs)) \<and>
           placeholders_of (fst (BuildSearchQueries p)) = cphs ?cs \<and>
           placeholders_of (fst (snd (BuildSearchQueries p))) = phs ?d @ cphs ?cs \<and>
           map (bind ?as) ?cs = intended_where p \<and>
           bind ?as ?d = intended_distance p"
    using c f bind_build [of p] unfolding as
    by (simp add: BuildSearchQueries_def templates_eq)
  have 5: "set (placeholders_of (fst (BuildSearchQueries p))) \<subseteq> {1 .. int (length ?as)}"
    using 2 by blast
  have 6: "set (placeholders_of (fst (BuildSearchQueries p))) = {1 .. int (length ?as)}"
    if "\<not> (HasLocation p \<and> City p \<noteq> [] \<and> Sort p \<noteq> [] \<and> Sort p \<noteq> ''discount'')"
    using 3 that by presburger
  show ?thesis using 1 2 5 6 4 by blast
qed

theorem placeholders_and_arguments_witness:
  "set (placeholders_of (fst (snd (BuildSearchQueries p_city)))) = {1 .. 3} \<and>
   set (placeholders_of (fst (BuildSearchQueries p_city))) \<subseteq> {1 .. 3} \<and>
   set (placeholders_of (fst (BuildSearchQueries p_deals))) = {1 .. 3}"
proof -
  have a: "length (snd (snd (BuildSearchQueries p_city))) = 3"
    "length (snd (snd (BuildSearchQueries p_deals))) = 3"
    by (simp_all add: strings_placeholders templates_eq step_defs p_city_def p_deals_def
        zeroParams_def Let_def)
  have c: "HasLocation p_city \<and> City p_city \<noteq> [] \<and> Sort p_city \<noteq> [] \<and> Sort p_city \<noteq> ''discount''"
    by (simp add: p_city_def zeroParams_def)
  have d: "\<not> (HasLocation p_deals \<and> City p_deals \<noteq> [] \<and> Sort p_deals \<noteq> [] \<and> Sort p_deals \<noteq> ''discount'')"
    by (simp add: p_deals_def zeroParams_def)
  show ?thesis
    using placeholders_and_arguments [of p_city] placeholders_and_arguments [of p_deals] a c d
    by simp
qed


section \<open>Sequential indices\<close>

lemma from_idx_upto: "from_idx i n = [i .. i + int n - 1]"
proof (induction n arbitrary: i)
  case 0
  then show ?case by simp
next
  case (Suc n)
  have "[i .. i + int (Suc n) - 1] = i # [i + 1 .. i + int (Suc n) - 1]"
    by (rule upto_rec1) simp
  then show ?case using Suc [of "i + 1"] by (simp add: from_idx_Suc)
qed

lemma rest_disjoint:
  "sorted_wrt (\<lambda>a b. set (phs a) \<inter> set (phs b) = {}) (fst (rest_out p))"
  "\<forall>c \<in> set (fst (rest_out p)). set (phs c) \<subseteq> {rest_from p ..< rest_from p + int (length (snd (rest_out p)))}"
  using run_out_disjoint [OF fresh_rest, of p "rest_from p"] by (simp_all add: rest_out_def)

lemma prefix_bound:
  "c \<in> set (loc_conds p @ fst (cr_out p)) \<Longrightarrow> set (phs c) \<subseteq> {1 ..< rest_from p}"
  by (auto simp: loc_conds_def cr_out_def d_city_or_radius_def loc_args_def rest_from_def fmt_defs
      split: if_splits)

lemma prefix_pairwise:
  "sorted_wrt (\<lambda>a b. set (phs a) \<inter> set (phs b) \<subseteq> (if HasLocation p then {1, 2} else {}))
     (loc_conds p @ fst (cr_out p))"
  by (auto simp: loc_conds_def cr_out_def d_city_or_radius_def loc_args_def fmt_defs)

lemma conds_pairwise:
  "sorted_wrt (\<lambda>a b. set (phs a) \<inter> set (phs b) \<subseteq> (if HasLocation p then {1, 2} else {}))
     (conditions (snd (build p)))"
proof -
  let ?R = "\<lambda>a b. set (phs a) \<inter> set (phs b) \<subseteq> (if HasLocation p then {1, 2 :: int} else {})"
  have r: "sorted_wrt ?R (fst (rest_out p))"
    using rest_disjoint(1) [of p] by (rule sorted_wrt_mono_rel [rotated]) simp
  have cross: "\<forall>a \<in> set (loc_conds p @ fst (cr_out p)). \<forall>b \<in> set (fst (rest_out p)). ?R a b"
  proof (intro ballI)
    fix a b assume a: "a \<in> set (loc_conds p @ fst (cr_out p))" and b: "b \<in> set (fst (rest_out p))"
    have "set (phs a) \<inter> set (phs b) = {}"
      using prefix_bound [OF a] rest_disjoint(2) [of p] b by fastforce
    then show "?R a b" by simp
  qed
  have "sorted_wrt ?R ((loc_conds p @ fst (cr_out p)) @ fst (rest_out p))"
    using prefix_pairwise [of p] r cross by (subst sorted_wrt_append) blast
  then show ?thesis by (simp add: build_parts)
qed

lemma geo_conds:
  assumes "HasLocation p" and "c \<in> set (conditions (snd (build p)))"
    and "1 \<in> set (phs c) \<or> 2 \<in> set (phs c)"
  shows "c = cutoff_fmt 1 2 \<or> c = radius_fmt 1 2 3"
proof -
  consider "c \<in> set (loc_conds p)" | "c \<in> set (fst (cr_out p))" | "c \<in> set (fst (rest_out p))"
    using assms(2) by (auto simp: build_parts)
  then show ?thesis
  proof cases
    case 1
    then show ?thesis by (auto simp: loc_conds_def split: if_splits)
  next
    case 2
    then show ?thesis
      using assms(1,3)
      by (auto simp: cr_out_def d_city_or_radius_def loc_args_def fmt_defs split: if_splits)
  next
    case 3
    have "rest_from p = 4"
      using assms(1) by (simp add: rest_from_def loc_args_def d_city_or_radius_def)
    moreover have "set (phs c) \<subseteq> {rest_from p ..< rest_from p + int (length (snd (rest_out p)))}"
      using rest_disjoint(2) [of p] 3 by blast
    ultimately show ?thesis using assms(3) by auto
  qed
qed


lemma simple_step_served:
  assumes "d_simple True fmt v \<in> set (filters_rest p)"
  shows "\<exists>k. fmt k \<in> set (conditions (snd (build p))) \<and> lookup (args (snd (build p))) k = Some v"
proof -
  let ?d = "d_simple True fmt v"
  let ?A = "loc_args p @ snd (cr_out p)"
  obtain pre post where
    a: "snd (rest_out p) = pre @ snd (?d (rest_from p + int (length pre))) @ post"
    and b: "set (fst (?d (rest_from p + int (length pre)))) \<subseteq> set (fst (rest_out p))"
    using run_out_member [OF assms, of "rest_from p"] unfolding rest_out_def by blast
  let ?k = "rest_from p + int (length pre)"
  have k: "?k = int (length (?A @ pre)) + 1" by (simp add: rest_from_eq)
  have as: "args (snd (build p)) = (?A @ pre) @ v # post"
    using a by (simp add: build_parts d_simple_def)
  have "fmt ?k \<in> set (conditions (snd (build p)))"
    using b by (simp add: build_parts d_simple_def)
  moreover have "lookup (args (snd (build p))) ?k = Some v"
    unfolding as k by (rule lookup_mid1)
  ultimately show ?thesis by blast
qed

text \<open>
  C2: the counter is one more than the number of arguments; in the fetch query the indices
  occur for the first time in the order 1, 2, 3 and so on, up to the number of arguments; two
  different conditions share no index but the two of the geographic point, and the conditions
  that name those two are the cutoff and the radius predicate, written with the recorded
  indices 1 and 2 while longitude and latitude stand once at the head of the vector. The name
  predicate names its one index twice; a list predicate has one index per segment, whatever
  the segments are.
\<close>

theorem sequential_placeholders:
  assumes "cs = conditions (snd (build p))" and "as = snd (snd (BuildSearchQueries p))"
  shows "as = args (snd (build p)) \<and>
         idx (snd (build p)) = int (length as) + 1 \<and>
         placeholders_of (fst (BuildSearchQueries p)) = cphs cs \<and>
         placeholders_of (fst (snd (BuildSearchQueries p))) = phs (fst (build p)) @ cphs cs \<and>
         firsts (placeholders_of (fst (snd (BuildSearchQueries p)))) = [1 .. int (length as)] \<and>
         (\<forall>i j. i < j \<and> j < length cs \<longrightarrow>
            set (phs (cs ! i)) \<inter> set (phs (cs ! j)) \<subseteq> (if HasLocation p then {1, 2} else {})) \<and>
         (\<forall>c \<in> set cs. HasLocation p \<and> (1 \<in> set (phs c) \<or> 2 \<in> set (phs c)) \<longrightarrow>
            c = cutoff_fmt 1 2 \<or> c = radius_fmt 1 2 3) \<and>
         (HasLocation p \<longrightarrow>
            fst (build p) = distance_fmt 1 2 \<and> take 2 as = [ArgFloat (Lon p), ArgFloat (Lat p)]) \<and>
         (\<not> HasLocation p \<longrightarrow> phs (fst (build p)) = []) \<and>
         (Name p \<noteq> [] \<longrightarrow>
            (\<exists>k. name_fmt k k \<in> set cs \<and> lookup as k = Some (ArgString (''%'' @ Name p @ ''%'')))) \<and>
         (Cuisines p \<noteq> [] \<longrightarrow> list_filter_served p cuisines_fmt TrimSpace (Cuisines p)) \<and>
         (CuisineIds p \<noteq> [] \<longrightarrow> list_filter_served p cuisine_ids_fmt (\<lambda>id. id) (CuisineIds p)) \<and>
         (MealTypes p \<noteq> [] \<longrightarrow> list_filter_served p meal_types_fmt TrimSpace (MealTypes p)) \<and>
         (MealTypeIds p \<noteq> [] \<longrightarrow>
            list_filter_served p meal_type_ids_fmt (\<lambda>id. id) (MealTypeIds p))"
proof -
  have l1: "list_filter_served p cuisines_fmt TrimSpace (Cuisines p)" if "Cuisines p \<noteq> []"
    by (rule list_step_served) (simp_all add: filters_rest_def that fmt_defs)
  have l2: "list_filter_served p cuisine_ids_fmt (\<lambda>id. id) (CuisineIds p)" if "CuisineIds p \<noteq> []"
    by (rule list_step_served) (simp_all add: filters_rest_def that fmt_defs)
  have l3: "list_filter_served p meal_types_fmt TrimSpace (MealTypes p)" if "MealTypes p \<noteq> []"
    by (rule list_step_served) (simp_all add: filters_rest_def that fmt_defs)
  have l4: "list_filter_served p meal_type_ids_fmt (\<lambda>id. id) (MealTypeIds p)" if "MealTypeIds p \<noteq> []"
    by (rule list_step_served) (simp_all add: filters_rest_def that fmt_defs)
  have a: "as = args (snd (build p))"
    using assms(2) by (simp add: strings_placeholders templates_eq)
  have i: "idx (snd (build p)) = int (length as) + 1"
    unfolding a by (rule build_parts(4))
  have c: "placeholders_of (fst (BuildSearchQueries p)) = cphs cs"
    using assms(1) by (simp add: strings_placeholders phs_templates)
  have f: "placeholders_of (fst (snd (BuildSearchQueries p))) = phs (fst (build p)) @ cphs cs"
    using assms(1) by (simp add: strings_placeholders phs_templates)
  have s: "firsts (placeholders_of (fst (snd (BuildSearchQueries p)))) = [1 .. int (length as)]"
    unfolding f a assms(1) build_parts(1) fetch_firsts by (simp add: from_idx_upto)
  have pw: "\<forall>i j. i < j \<and> j < length cs \<longrightarrow>
      set (phs (cs ! i)) \<inter> set (phs (cs ! j)) \<subseteq> (if HasLocation p then {1, 2} else {})"
    using conds_pairwise [of p] unfolding assms(1) sorted_wrt_iff_nth_less by blast
  have g: "\<forall>c \<in> set cs. HasLocation p \<and> (1 \<in> set (phs c) \<or> 2 \<in> set (phs c)) \<longrightarrow>
      c = cutoff_fmt 1 2 \<or> c = radius_fmt 1 2 3"
    using geo_conds [of p] unfolding assms(1) by blast
  have l: "fst (build p) = distance_fmt 1 2 \<and> take 2 as = [ArgFloat (Lon p), ArgFloat (Lat p)]"
    if "HasLocation p"
    using that unfolding a by (simp add: build_parts distanceExpr_of_def loc_args_def)
  have nl: "phs (fst (build p)) = []" if "\<not> HasLocation p"
    using that by (simp add: build_parts distanceExpr_of_def)
  have n: "\<exists>k. name_fmt k k \<in> set cs \<and> lookup as k = Some (ArgString (''%'' @ Name p @ ''%''))"
    if "Name p \<noteq> []"
    unfolding a assms(1)
    by (rule simple_step_served [where fmt = "\<lambda>i. name_fmt i i"]) (simp add: filters_rest_def that)
  show ?thesis using a i c f s pw g l nl n l1 l2 l3 l4 by blast
qed


theorem sequential_placeholders_witness:
  "placeholders_of (fst (snd (BuildSearchQueries p_full))) = [1, 2, 1, 2, 1, 2, 3, 4, 4, 5, 6] \<and>
   firsts (placeholders_of (fst (snd (BuildSearchQueries p_full)))) = [1, 2, 3, 4, 5, 6] \<and>
   snd (snd (BuildSearchQueries p_full)) =
     [ArgFloat (Finite 73.8), ArgFloat (Finite 18.5), ArgFloat (Finite 50000),
      ArgString ''%pizza%'', ArgString ''Thai'', ArgString ''Thai'']"
proof -
  have t: "TrimSpace ''Thai'' = ''Thai''" "TrimSpace '' Thai'' = ''Thai''"
    by (simp_all add: TrimSpace_def trim_front.simps space_runes_def starts_with_def trim_front_Nil)
  have b: "build p_full =
      (distance_fmt 1 2,
       \<lparr>args = [ArgFloat (Finite 73.8), ArgFloat (Finite 18.5), ArgFloat (Finite 50000),
                ArgString ''%pizza%'', ArgString ''Thai'', ArgString ''Thai''],
        conditions = [cutoff_fmt 1 2, radius_fmt 1 2 3, name_fmt 4 4,
                      cuisines_fmt [Ph 5, Lit '','', Ph 6], duplicate_cond],
        idx = 7\<rparr>)"
    by (simp add: step_defs p_full_def zeroParams_def Let_def t)
  have a: "snd (snd (BuildSearchQueries p_full)) =
     [ArgFloat (Finite 73.8), ArgFloat (Finite 18.5), ArgFloat (Finite 50000),
      ArgString ''%pizza%'', ArgString ''Thai'', ArgString ''Thai'']"
    by (simp add: strings_placeholders templates_eq b)
  have u: "[1 .. 6 :: int] = [1, 2, 3, 4, 5, 6]" by (simp add: upto.simps)
  have 1: "placeholders_of (fst (snd (BuildSearchQueries p_full))) =
        phs (fst (build p_full)) @ cphs (conditions (snd (build p_full)))"
    and 2: "firsts (placeholders_of (fst (snd (BuildSearchQueries p_full)))) =
        [1 .. int (length (snd (snd (BuildSearchQueries p_full))))]"
    using sequential_placeholders [OF refl refl, of p_full] by blast+
  have 3: "placeholders_of (fst (snd (BuildSearchQueries p_full))) =
      [1, 2, 1, 2, 1, 2, 3, 4, 4, 5, 6]"
    unfolding 1 by (simp add: b fmt_defs)
  have 4: "firsts (placeholders_of (fst (snd (BuildSearchQueries p_full)))) = [1, 2, 3, 4, 5, 6]"
    unfolding 2 a by (simp add: u)
  show ?thesis by (intro conjI) (rule 3 4 a)+
qed

end
